theory Spec2Isabelle
  imports Complex_Main "HOL-Library.Multiset"
begin

section \<open>Spatial statistics of \<open>refugia_analysis.py\<close>\<close>

text \<open>
  This theory embeds the statistics functions of \<open>src/refugia_analysis.py\<close>:
  \<open>haversine_distance\<close>, \<open>compute_spatial_weights\<close>, \<open>calculate_morans_i\<close> and
  \<open>permutation_test\<close>.

  Numbers: Python's \<open>float\<close> is modelled by \<open>real\<close>, that is, every arithmetic operation
  and every function of the \<open>math\<close> module is taken as the exact mathematical operation.
  Rounding, overflow, underflow and NaN are outside this model. Python's \<open>int\<close> is
  \<open>int\<close> (the parameters \<open>k\<close> and \<open>n_permutations\<close>) or \<open>nat\<close> (list lengths and
  the indices produced by \<open>range\<close>).

  Errors: an exception of the source is the left summand of the result.

  Two consequences of the exact arithmetic shape the statements below. Over the reals
  the argument of the square roots in \<open>haversine_distance\<close> never leaves \<open>[0, 1]\<close>, while
  rounding can push it above 1 and make the program raise; properties of the weights
  builder are therefore stated for the calls that return. And the tests
  \<open>sum_sq_dev == 0\<close>, \<open>W == 0\<close> and \<open>var_I <= 0\<close> are decided exactly here; statements
  about them keep to inputs on which the exact and the rounded test agree.
\<close>

subsection \<open>Data model\<close>

datatype py_error = ValueError | IndexError | ZeroDivisionError

text \<open>\<open>class Language(NamedTuple)\<close>; the field \<open>value\<close> of the source is \<open>feature_value\<close> here.\<close>

record Language =
  code :: string
  name :: string
  latitude :: real
  longitude :: real
  feature_value :: int
  description :: string

subsection \<open>Functions of the \<open>math\<close> module\<close>

text \<open>\<open>math.radians\<close>.\<close>

definition radians :: "real \<Rightarrow> real" where
  "radians x = x * (pi / 180)"

text \<open>\<open>math.sqrt\<close> raises \<open>ValueError\<close> on a negative argument.\<close>

definition py_sqrt :: "real \<Rightarrow> py_error + real" where
  "py_sqrt x = (if x < 0 then Inl ValueError else Inr (sqrt x))"

text \<open>\<open>math.atan2 y x\<close>: the angle of the point \<open>(x, y)\<close>, in \<open>(-pi, pi]\<close>.\<close>

definition atan2 :: "real \<Rightarrow> real \<Rightarrow> real" where
  "atan2 y x =
     (if 0 < x then arctan (y / x)
      else if x < 0 then (if 0 \<le> y then arctan (y / x) + pi else arctan (y / x) - pi)
      else if 0 < y then pi / 2
      else if y < 0 then - (pi / 2)
      else 0)"

text \<open>\<open>math.erf\<close>, by its power series.\<close>

definition erf :: "real \<Rightarrow> real" where
  "erf x = 2 / sqrt pi * (\<Sum>n. (- 1) ^ n * x ^ (2 * n + 1) / (fact n * real (2 * n + 1)))"

subsection \<open>\<open>haversine_distance\<close>\<close>

text \<open>The argument \<open>a\<close> of the two square roots.\<close>

definition haversine_a :: "real \<Rightarrow> real \<Rightarrow> real \<Rightarrow> real \<Rightarrow> real" where
  "haversine_a lat1 lon1 lat2 lon2 =
     (let lat1_rad = radians lat1;
          lat2_rad = radians lat2;
          delta_lat = radians (lat2 - lat1);
          delta_lon = radians (lon2 - lon1)
      in (sin (delta_lat / 2)) ^ 2 + cos lat1_rad * cos lat2_rad * (sin (delta_lon / 2)) ^ 2)"

definition haversine_distance :: "real \<Rightarrow> real \<Rightarrow> real \<Rightarrow> real \<Rightarrow> py_error + real" where
  "haversine_distance lat1 lon1 lat2 lon2 =
     (let R = 6371;
          a = haversine_a lat1 lon1 lat2 lon2
      in case py_sqrt a of
           Inl e \<Rightarrow> Inl e
         | Inr s1 \<Rightarrow>
             (case py_sqrt (1 - a) of
                Inl e \<Rightarrow> Inl e
              | Inr s2 \<Rightarrow> (let c = 2 * atan2 s1 s2 in Inr (R * c))))"

subsection \<open>\<open>compute_spatial_weights\<close>\<close>

text \<open>
  The inner loop \<open>for j in range(n)\<close> that appends \<open>(j, dist)\<close> for every
  \<open>j \<noteq> i\<close> (the source's \<open>dist\<close> is \<open>d\<close> here); \<open>js\<close> is what is left of
  \<open>range(n)\<close>, \<open>distances\<close> the list built so far.
\<close>

fun collect_distances ::
  "Language list \<Rightarrow> nat \<Rightarrow> nat list \<Rightarrow> (nat \<times> real) list \<Rightarrow> py_error + (nat \<times> real) list" where
  "collect_distances languages i [] distances = Inr distances"
| "collect_distances languages i (j # js) distances =
     (if i \<noteq> j then
        (case haversine_distance (latitude (languages ! i)) (longitude (languages ! i))
                (latitude (languages ! j)) (longitude (languages ! j)) of
           Inl e \<Rightarrow> Inl e
         | Inr d \<Rightarrow> collect_distances languages i js (distances @ [(j, d)]))
      else collect_distances languages i js distances)"

text \<open>
  The slice \<open>xs[:k]\<close>: the first \<open>k\<close> elements for \<open>k \<ge> 0\<close>, all but the last \<open>-k\<close>
  elements for \<open>k < 0\<close>.
\<close>

definition py_slice_to :: "int \<Rightarrow> 'a list \<Rightarrow> 'a list" where
  "py_slice_to k xs = (if 0 \<le> k then take (nat k) xs else take (length xs - nat (- k)) xs)"

text \<open>The two loops \<open>for j, dist in neighbors: weights[i][j] = ...\<close>, on row \<open>i\<close>.\<close>

definition assign_weights :: "bool \<Rightarrow> (nat \<times> real) list \<Rightarrow> real list \<Rightarrow> real list" where
  "assign_weights inverse_distance neighbors row =
     (if inverse_distance
      then fold (\<lambda>(j, d) r. r[j := 1 / max d (1 / 10)]) neighbors row
      else fold (\<lambda>(j, d) r. r[j := 1]) neighbors row)"

text \<open>
  The first loop \<open>for i in range(n)\<close>: \<open>list.sort\<close> is stable, as is \<open>sort_key\<close>.
\<close>

fun fill_rows ::
  "Language list \<Rightarrow> int \<Rightarrow> bool \<Rightarrow> nat list \<Rightarrow> real list list \<Rightarrow> py_error + real list list" where
  "fill_rows languages k inverse_distance [] weights = Inr weights"
| "fill_rows languages k inverse_distance (i # is) weights =
     (case collect_distances languages i [0..<length languages] [] of
        Inl e \<Rightarrow> Inl e
      | Inr distances \<Rightarrow>
          (let neighbors = py_slice_to k (sort_key snd distances)
           in fill_rows languages k inverse_distance is
                (weights[i := assign_weights inverse_distance neighbors (weights ! i)])))"

text \<open>The loop \<open>for j in range(n): weights[i][j] /= row_sum\<close>.\<close>

definition divide_row :: "nat \<Rightarrow> real \<Rightarrow> real list \<Rightarrow> real list" where
  "divide_row n row_sum row = fold (\<lambda>j r. r[j := r ! j / row_sum]) [0..<n] row"

text \<open>The second loop \<open>for i in range(n)\<close>, the row standardisation.\<close>

fun row_standardize :: "nat \<Rightarrow> nat list \<Rightarrow> real list list \<Rightarrow> real list list" where
  "row_standardize n [] weights = weights"
| "row_standardize n (i # is) weights =
     (let row_sum = sum_list (weights ! i)
      in if row_sum > 0
         then row_standardize n is (weights[i := divide_row n row_sum (weights ! i)])
         else row_standardize n is weights)"

definition compute_spatial_weights ::
  "Language list \<Rightarrow> int \<Rightarrow> bool \<Rightarrow> py_error + real list list" where
  "compute_spatial_weights languages k inverse_distance =
     (let n = length languages;
          weights = replicate n (replicate n 0)
      in case fill_rows languages k inverse_distance [0..<n] weights of
           Inl e \<Rightarrow> Inl e
         | Inr weights' \<Rightarrow> Inr (row_standardize n [0..<n] weights'))"

subsection \<open>\<open>calculate_morans_i\<close>\<close>

text \<open>An index read \<open>xs[i]\<close> with \<open>i\<close> from \<open>range\<close>, and \<open>weights[i][j]\<close>.\<close>

definition py_get :: "'a list \<Rightarrow> nat \<Rightarrow> py_error + 'a" where
  "py_get xs i = (if i < length xs then Inr (xs ! i) else Inl IndexError)"

definition weight_at :: "real list list \<Rightarrow> nat \<Rightarrow> nat \<Rightarrow> py_error + real" where
  "weight_at weights i j =
     (case py_get weights i of Inl e \<Rightarrow> Inl e | Inr row \<Rightarrow> py_get row j)"

text \<open>
  The double loop for \<open>numerator\<close> and \<open>W\<close>; the state is the pair \<open>(numerator, W)\<close>.
\<close>

fun cross_inner ::
  "real list list \<Rightarrow> real list \<Rightarrow> nat \<Rightarrow> nat list \<Rightarrow> real \<times> real \<Rightarrow> py_error + real \<times> real" where
  "cross_inner weights deviations i [] acc = Inr acc"
| "cross_inner weights deviations i (j # js) acc =
     (if i \<noteq> j then
        (case weight_at weights i j of
           Inl e \<Rightarrow> Inl e
         | Inr w \<Rightarrow>
             cross_inner weights deviations i js
               (fst acc + w * deviations ! i * deviations ! j, snd acc + w))
      else cross_inner weights deviations i js acc)"

fun cross_outer ::
  "real list list \<Rightarrow> real list \<Rightarrow> nat \<Rightarrow> nat list \<Rightarrow> real \<times> real \<Rightarrow> py_error + real \<times> real" where
  "cross_outer weights deviations n [] acc = Inr acc"
| "cross_outer weights deviations n (i # is) acc =
     (case cross_inner weights deviations i [0..<n] acc of
        Inl e \<Rightarrow> Inl e
      | Inr acc' \<Rightarrow> cross_outer weights deviations n is acc')"

text \<open>\<open>col_sum = sum(weights[j][i] for j in range(n))\<close>.\<close>

fun column_sum :: "real list list \<Rightarrow> nat \<Rightarrow> nat list \<Rightarrow> real \<Rightarrow> py_error + real" where
  "column_sum weights i [] acc = Inr acc"
| "column_sum weights i (j # js) acc =
     (case weight_at weights j i of
        Inl e \<Rightarrow> Inl e
      | Inr w \<Rightarrow> column_sum weights i js (acc + w))"

text \<open>The inner loop \<open>S1 += (weights[i][j] + weights[j][i]) ** 2\<close>.\<close>

fun s1_inner :: "real list list \<Rightarrow> nat \<Rightarrow> nat list \<Rightarrow> real \<Rightarrow> py_error + real" where
  "s1_inner weights i [] S1 = Inr S1"
| "s1_inner weights i (j # js) S1 =
     (case weight_at weights i j of
        Inl e \<Rightarrow> Inl e
      | Inr a \<Rightarrow>
          (case weight_at weights j i of
             Inl e \<Rightarrow> Inl e
           | Inr b \<Rightarrow> s1_inner weights i js (S1 + (a + b) ^ 2)))"

text \<open>The loop for \<open>S1\<close> and \<open>S2\<close>; the state is the pair \<open>(S1, S2)\<close>.\<close>

fun variance_sums ::
  "real list list \<Rightarrow> nat \<Rightarrow> nat list \<Rightarrow> real \<times> real \<Rightarrow> py_error + real \<times> real" where
  "variance_sums weights n [] acc = Inr acc"
| "variance_sums weights n (i # is) acc =
     (case py_get weights i of
        Inl e \<Rightarrow> Inl e
      | Inr row \<Rightarrow>
          (let row_sum = sum_list row
           in case column_sum weights i [0..<n] 0 of
                Inl e \<Rightarrow> Inl e
              | Inr col_sum \<Rightarrow>
                  (case s1_inner weights i [0..<n] (fst acc) of
                     Inl e \<Rightarrow> Inl e
                   | Inr S1' \<Rightarrow>
                       variance_sums weights n is (S1', snd acc + (row_sum + col_sum) ^ 2))))"

text \<open>
  The divisions of the source are guarded by the tests before them (\<open>n \<ge> 3\<close>,
  \<open>sum_sq_dev \<noteq> 0\<close>, \<open>W \<noteq> 0\<close>, \<open>m2 > 0\<close>, \<open>C \<noteq> 0\<close>, \<open>var_I > 0\<close>), so over the reals
  none of them divides by zero and \<open>math.sqrt\<close> gets a positive argument.
\<close>

definition calculate_morans_i ::
  "Language list \<Rightarrow> real list \<Rightarrow> real list list \<Rightarrow> py_error + real \<times> real \<times> real" where
  "calculate_morans_i languages values weights =
     (let n = length values in
      if n < 3 then Inr (0, 0, 1)
      else
        let mean_val = sum_list values / real n;
            deviations = map (\<lambda>v. v - mean_val) values;
            sum_sq_dev = sum_list (map (\<lambda>d. d ^ 2) deviations)
        in if sum_sq_dev = 0 then Inr (0, 0, 1)
           else
             (case cross_outer weights deviations n [0..<n] (0, 0) of
                Inl e \<Rightarrow> Inl e
              | Inr (numerator, W) \<Rightarrow>
                  if W = 0 then Inr (0, 0, 1)
                  else
                    let I = (real n / W) * (numerator / sum_sq_dev);
                        E_I = - 1 / (real n - 1)
                    in (case variance_sums weights n [0..<n] (0, 0) of
                          Inl e \<Rightarrow> Inl e
                        | Inr (S1_twice, S2) \<Rightarrow>
                            let S1 = S1_twice / 2;
                                m2 = sum_sq_dev / real n;
                                m4 = sum_list (map (\<lambda>d. d ^ 4) deviations) / real n;
                                b2 = (if m2 > 0 then m4 / (m2 ^ 2) else 3);
                                A = real n * (((real n) ^ 2 - 3 * real n + 3) * S1
                                      - real n * S2 + 3 * W ^ 2);
                                B = b2 * (((real n) ^ 2 - real n) * S1
                                      - 2 * real n * S2 + 6 * W ^ 2);
                                C = (real n - 1) * (real n - 2) * (real n - 3) * W ^ 2
                            in if C = 0 then Inr (I, 0, 1)
                               else
                                 let var_I = (A - B) / C - E_I ^ 2
                                 in if var_I \<le> 0 then Inr (I, 0, 1)
                                    else
                                      let z = (I - E_I) / sqrt var_I;
                                          p = 2 * (1 - (1 / 2) * (1 + erf (\<bar>z\<bar> / sqrt 2)))
                                      in Inr (I, z, p))))"

subsection \<open>\<open>permutation_test\<close>\<close>

text \<open>
  \<open>random.shuffle\<close> reads and advances the global generator. The generator state is a
  value of type \<open>'g\<close>, and \<open>shuffle\<close> maps a state and a list to the shuffled list and the
  next state. The loop state is the pair of \<open>more_extreme\<close> and the generator; every
  round shuffles a fresh copy of \<open>values\<close>.
\<close>

fun permutation_loop ::
  "('g \<Rightarrow> real list \<Rightarrow> real list \<times> 'g) \<Rightarrow> Language list \<Rightarrow> real list \<Rightarrow> real list list \<Rightarrow>
   real \<Rightarrow> nat \<Rightarrow> nat \<Rightarrow> 'g \<Rightarrow> py_error + nat \<times> 'g" where
  "permutation_loop shuffle languages values weights observed_I 0 more_extreme g =
     Inr (more_extreme, g)"
| "permutation_loop shuffle languages values weights observed_I (Suc m) more_extreme g =
     (let (shuffled_values, g') = shuffle g values
      in case calculate_morans_i languages shuffled_values weights of
           Inl e \<Rightarrow> Inl e
         | Inr (perm_I, _, _) \<Rightarrow>
             permutation_loop shuffle languages values weights observed_I m
               (if \<bar>perm_I\<bar> \<ge> \<bar>observed_I\<bar> then more_extreme + 1 else more_extreme) g')"

text \<open>
  \<open>range(n_permutations)\<close> is empty for \<open>n_permutations \<le> 0\<close>; the final division
  raises \<open>ZeroDivisionError\<close> when \<open>n_permutations + 1 = 0\<close>. The result carries the
  generator state after the run.
\<close>

definition permutation_test ::
  "('g \<Rightarrow> real list \<Rightarrow> real list \<times> 'g) \<Rightarrow> 'g \<Rightarrow> Language list \<Rightarrow> real list \<Rightarrow>
   real list list \<Rightarrow> int \<Rightarrow> py_error + (real \<times> real) \<times> 'g" where
  "permutation_test shuffle g languages values weights n_permutations =
     (case calculate_morans_i languages values weights of
        Inl e \<Rightarrow> Inl e
      | Inr (observed_I, _, _) \<Rightarrow>
          (case permutation_loop shuffle languages values weights observed_I
                  (nat n_permutations) 0 g of
             Inl e \<Rightarrow> Inl e
           | Inr (more_extreme, g') \<Rightarrow>
               if n_permutations + 1 = 0 then Inl ZeroDivisionError
               else Inr ((observed_I,
                          (real more_extreme + 1) / (real_of_int n_permutations + 1)), g')))"

subsection \<open>Auxiliary and specification-side definitions\<close>

text \<open>
  The value \<open>haversine_distance\<close> returns when neither square root raises
  (lemma \<open>haversine_distance_eq\<close>: it always does, over the reals).
\<close>

definition haversine_km :: "real \<Rightarrow> real \<Rightarrow> real \<Rightarrow> real \<Rightarrow> real" where
  "haversine_km lat1 lon1 lat2 lon2 =
     6371 * (2 * atan2 (sqrt (haversine_a lat1 lon1 lat2 lon2))
                       (sqrt (1 - haversine_a lat1 lon1 lat2 lon2)))"

text \<open>The distance between the points \<open>i\<close> and \<open>j\<close> of the list.\<close>

definition pair_km :: "Language list \<Rightarrow> nat \<Rightarrow> nat \<Rightarrow> real" where
  "pair_km languages i j =
     haversine_km (latitude (languages ! i)) (longitude (languages ! i))
       (latitude (languages ! j)) (longitude (languages ! j))"

text \<open>The list \<open>distances\<close> that the inner loop builds for point \<open>i\<close>.\<close>

definition candidates :: "Language list \<Rightarrow> nat \<Rightarrow> (nat \<times> real) list" where
  "candidates languages i =
     map (\<lambda>j. (j, pair_km languages i j)) (filter (\<lambda>j. j \<noteq> i) [0..<length languages])"

text \<open>The list \<open>neighbors\<close> of point \<open>i\<close>: sorted, then sliced.\<close>

definition neighbors_of :: "Language list \<Rightarrow> int \<Rightarrow> nat \<Rightarrow> (nat \<times> real) list" where
  "neighbors_of languages k i = py_slice_to k (sort_key snd (candidates languages i))"

text \<open>Row \<open>i\<close> after the first loop, before the row standardisation.\<close>

definition raw_row :: "Language list \<Rightarrow> int \<Rightarrow> bool \<Rightarrow> nat \<Rightarrow> real list" where
  "raw_row languages k inverse_distance i =
     assign_weights inverse_distance (neighbors_of languages k i)
       (replicate (length languages) 0)"

text \<open>One round of the second loop, on the row it visits.\<close>

definition normalize_row :: "nat \<Rightarrow> real list \<Rightarrow> real list" where
  "normalize_row n row =
     (let row_sum = sum_list row in if row_sum > 0 then divide_row n row_sum row else row)"

text \<open>The raw weight that either branch of \<open>if inverse_distance\<close> assigns.\<close>

definition neighbor_weight :: "bool \<Rightarrow> real \<Rightarrow> real" where
  "neighbor_weight inverse_distance d = (if inverse_distance then 1 / max d (1 / 10) else 1)"

text \<open>
  The order of the specification: ascending distance, ties between equal distances
  broken by ascending original index. The pairs are \<open>(index, distance)\<close>.
\<close>

definition closer_spec :: "nat \<times> real \<Rightarrow> nat \<times> real \<Rightarrow> bool" where
  "closer_spec a b \<longleftrightarrow> snd a < snd b \<or> (snd a = snd b \<and> fst a < fst b)"

text \<open>Two points, for the instances of the theorems on the weights builder.\<close>

definition two_points :: "Language list" where
  "two_points =
     [\<lparr>code = ''aaa'', name = ''A'', latitude = 10, longitude = 20, feature_value = 1,
        description = ''Small''\<rparr>,
      \<lparr>code = ''bbb'', name = ''B'', latitude = -5, longitude = 40, feature_value = 2,
        description = ''Large''\<rparr>]"

text \<open>A weights matrix sized to the value vector: \<open>n\<close> rows of length \<open>n\<close>.\<close>

definition square_matrix :: "nat \<Rightarrow> real list list \<Rightarrow> bool" where
  "square_matrix n w \<longleftrightarrow> length w = n \<and> (\<forall>row\<in>set w. length row = n)"

text \<open>
  The quantities of the specification, section 4.3, for a value vector \<open>x\<close> and a weights
  matrix \<open>w\<close>: the deviation \<open>d_i\<close>, the total weight \<open>W_total\<close> (the sum of \<open>w_ij\<close> over
  \<open>i \<noteq> j\<close>), the sum of squared deviations and Moran's I.
\<close>

definition deviation_spec :: "real list \<Rightarrow> nat \<Rightarrow> real" where
  "deviation_spec x i = x ! i - (\<Sum>k<length x. x ! k) / real (length x)"

definition W_total_spec :: "nat \<Rightarrow> real list list \<Rightarrow> real" where
  "W_total_spec n w = (\<Sum>i<n. \<Sum>j\<in>{..<n} - {i}. w ! i ! j)"

definition sum_sq_dev_spec :: "real list \<Rightarrow> real" where
  "sum_sq_dev_spec x = (\<Sum>i<length x. (deviation_spec x i) ^ 2)"

definition cross_product_spec :: "real list \<Rightarrow> real list list \<Rightarrow> real" where
  "cross_product_spec x w =
     (\<Sum>i<length x. \<Sum>j\<in>{..<length x} - {i}. w ! i ! j * deviation_spec x i * deviation_spec x j)"

definition morans_I_spec :: "real list \<Rightarrow> real list list \<Rightarrow> real" where
  "morans_I_spec x w =
     (real (length x) / W_total_spec (length x) w) * (cross_product_spec x w / sum_sq_dev_spec x)"

text \<open>The expected value and the variance under randomisation (steps 4 and 5).\<close>

definition E_I_spec :: "nat \<Rightarrow> real" where
  "E_I_spec n = - 1 / (real n - 1)"

definition S1_spec :: "nat \<Rightarrow> real list list \<Rightarrow> real" where
  "S1_spec n w = (1 / 2) * (\<Sum>i<n. \<Sum>j<n. (w ! i ! j + w ! j ! i) ^ 2)"

definition S2_spec :: "nat \<Rightarrow> real list list \<Rightarrow> real" where
  "S2_spec n w = (\<Sum>i<n. ((\<Sum>j<n. w ! i ! j) + (\<Sum>j<n. w ! j ! i)) ^ 2)"

definition b2_spec :: "real list \<Rightarrow> real" where
  "b2_spec x =
     ((\<Sum>i<length x. (deviation_spec x i) ^ 4) / real (length x))
       / (sum_sq_dev_spec x / real (length x)) ^ 2"

definition A_spec :: "real list \<Rightarrow> real list list \<Rightarrow> real" where
  "A_spec x w =
     (let n = real (length x)
      in n * ((n ^ 2 - 3 * n + 3) * S1_spec (length x) w - n * S2_spec (length x) w
              + 3 * (W_total_spec (length x) w) ^ 2))"

definition B_spec :: "real list \<Rightarrow> real list list \<Rightarrow> real" where
  "B_spec x w =
     (let n = real (length x)
      in b2_spec x * ((n ^ 2 - n) * S1_spec (length x) w - 2 * n * S2_spec (length x) w
                      + 6 * (W_total_spec (length x) w) ^ 2))"

definition C_spec :: "real list \<Rightarrow> real list list \<Rightarrow> real" where
  "C_spec x w =
     (let n = real (length x)
      in (n - 1) * (n - 2) * (n - 3) * (W_total_spec (length x) w) ^ 2)"

definition var_I_spec :: "real list \<Rightarrow> real list list \<Rightarrow> real" where
  "var_I_spec x w = (A_spec x w - B_spec x w) / C_spec x w - (E_I_spec (length x)) ^ 2"

text \<open>Step 6: the z-score, the standard normal distribution function and the p-value.\<close>

definition z_spec :: "real list \<Rightarrow> real list list \<Rightarrow> real" where
  "z_spec x w = (morans_I_spec x w - E_I_spec (length x)) / sqrt (var_I_spec x w)"

definition Phi_spec :: "real \<Rightarrow> real" where
  "Phi_spec t = (1 / 2) * (1 + erf (t / sqrt 2))"

definition p_spec :: "real list \<Rightarrow> real list list \<Rightarrow> real" where
  "p_spec x w = 2 * (1 - Phi_spec \<bar>z_spec x w\<bar>)"

text \<open>
  The result of the specification's algorithm 4.3 (steps 1 to 6), from the sums above.
\<close>

definition morans_result_spec :: "real list \<Rightarrow> real list list \<Rightarrow> real \<times> real \<times> real" where
  "morans_result_spec x w =
     (if length x < 3 \<or> sum_sq_dev_spec x = 0 \<or> W_total_spec (length x) w = 0 then (0, 0, 1)
      else if C_spec x w = 0 \<or> var_I_spec x w \<le> 0 then (morans_I_spec x w, 0, 1)
      else (morans_I_spec x w, z_spec x w, p_spec x w))"

text \<open>A constant value vector: all entries are equal.\<close>

definition constant_vector :: "real list \<Rightarrow> bool" where
  "constant_vector x \<longleftrightarrow> (\<forall>a\<in>set x. \<forall>b\<in>set x. a = b)"

text \<open>Value vectors and weights matrices for the instances of the theorems below.\<close>

definition values3 :: "real list" where
  "values3 = [1, 0, 0]"

definition values4 :: "real list" where
  "values4 = [1, 1, 0, 0]"


definition chain_weights3 :: "real list list" where
  "chain_weights3 = [[0, 1, 0], [1 / 2, 0, 1 / 2], [0, 1, 0]]"

definition chain_weights4 :: "real list list" where
  "chain_weights4 = [[0, 1, 0, 0], [1 / 2, 0, 1 / 2, 0], [0, 1 / 2, 0, 1 / 2], [0, 0, 1, 0]]"


text \<open>
  The vectors that \<open>m\<close> successive calls of \<open>shuffle\<close> on copies of \<open>x\<close> produce, starting
  from the generator state \<open>g\<close>, and the generator state after them.
\<close>

fun drawn_vectors ::
  "('g \<Rightarrow> real list \<Rightarrow> real list \<times> 'g) \<Rightarrow> 'g \<Rightarrow> real list \<Rightarrow> nat \<Rightarrow> real list list" where
  "drawn_vectors shuffle g x 0 = []"
| "drawn_vectors shuffle g x (Suc m) =
     fst (shuffle g x) # drawn_vectors shuffle (snd (shuffle g x)) x m"

fun generator_after ::
  "('g \<Rightarrow> real list \<Rightarrow> real list \<times> 'g) \<Rightarrow> 'g \<Rightarrow> real list \<Rightarrow> nat \<Rightarrow> 'g" where
  "generator_after shuffle g x 0 = g"
| "generator_after shuffle g x (Suc m) = generator_after shuffle (snd (shuffle g x)) x m"

text \<open>
  Whether the statistic recomputed for the vector \<open>y\<close> is at least as extreme as the
  observed one.
\<close>

definition at_least_as_extreme ::
  "Language list \<Rightarrow> real list list \<Rightarrow> real \<Rightarrow> real list \<Rightarrow> bool" where
  "at_least_as_extreme languages w observed_I y =
     (case calculate_morans_i languages y w of
        Inl e \<Rightarrow> False
      | Inr (perm_I, z, p) \<Rightarrow> \<bar>perm_I\<bar> \<ge> \<bar>observed_I\<bar>)"

text \<open>A generator for the instances: the state counts the calls, the list is rotated.\<close>

definition rotate_shuffle :: "nat \<Rightarrow> real list \<Rightarrow> real list \<times> nat" where
  "rotate_shuffle g y = (rotate (Suc g) y, Suc g)"

text \<open>
  The great-circle distance between two points of the same latitude whose longitudes
  differ by \<open>m\<close> degrees.
\<close>

definition lon_km :: "real \<Rightarrow> real \<Rightarrow> real" where
  "lon_km lat m = haversine_km lat 0 lat m"

text \<open>
  The point set of scenarios A and B of the specification: five points of latitude
  \<open>lat\<close> at the longitudes 0, 1, 2, 3, 4; and their label vectors.
\<close>

definition scenario_point :: "real \<Rightarrow> real \<Rightarrow> Language" where
  "scenario_point lat lon =
     \<lparr>code = ''pt'', name = ''point'', latitude = lat, longitude = lon, feature_value = 1,
      description = ''scenario''\<rparr>"

definition scenario_points :: "real \<Rightarrow> Language list" where
  "scenario_points lat =
     [scenario_point lat 0, scenario_point lat 1, scenario_point lat 2,
      scenario_point lat 3, scenario_point lat 4]"

definition clustered_labels :: "real list" where
  "clustered_labels = [1, 1, 1, 0, 0]"

definition interleaved_labels :: "real list" where
  "interleaved_labels = [1, 0, 1, 0, 1]"

text \<open>
  The weights matrix of the five points for \<open>k = 2\<close>: the end points give the share \<open>p\<close>
  to the nearest and \<open>q\<close> to the second nearest point, the inner points a half to each
  side.
\<close>

definition scenario_matrix :: "real \<Rightarrow> real \<Rightarrow> real list list" where
  "scenario_matrix p q =
     [[0, p, q, 0, 0],
      [1 / 2, 0, 1 / 2, 0, 0],
      [0, 1 / 2, 0, 1 / 2, 0],
      [0, 0, 1 / 2, 0, 1 / 2],
      [0, 0, q, p, 0]]"

text \<open>
  The weights matrix of the five scenario points for \<open>k = 1\<close> and binary weights: every
  point gives all its weight to its nearest neighbour, the one of lower index where two
  are equally near.
\<close>

definition nearest_matrix :: "real list list" where
  "nearest_matrix =
     [[0, 1, 0, 0, 0],
      [1, 0, 0, 0, 0],
      [0, 1, 0, 0, 0],
      [0, 0, 1, 0, 0],
      [0, 0, 0, 1, 0]]"

text \<open>
  Python passes lists by reference, so whether a call changes its arguments is a
  question about the objects they refer to. A store holds the list objects by address:
  lists of floats, lists of row references (a weights matrix is a list of references to
  its rows) and lists of \<open>Language\<close> records. \<open>next_float_list\<close> is the address that the
  next new list of floats gets; the lists of floats in use lie below it.
\<close>

record py_store =
  float_lists :: "nat \<Rightarrow> real list"
  row_lists :: "nat \<Rightarrow> nat list"
  language_lists :: "nat \<Rightarrow> Language list"
  next_float_list :: nat

text \<open>The matrix that a weights reference denotes, row by row.\<close>

definition matrix_at :: "py_store \<Rightarrow> nat \<Rightarrow> real list list" where
  "matrix_at s weights = map (float_lists s) (row_lists s weights)"

text \<open>A list display or comprehension makes a new list object.\<close>

definition new_float_list :: "real list \<Rightarrow> py_store \<Rightarrow> nat \<times> py_store" where
  "new_float_list xs s =
     (next_float_list s,
      s\<lparr>float_lists := (float_lists s)(next_float_list s := xs),
        next_float_list := Suc (next_float_list s)\<rparr>)"

text \<open>
  \<open>calculate_morans_i\<close> once more, with its three arguments as references and the
  store passed through: every read of \<open>values\<close>, \<open>weights[i][j]\<close> and \<open>deviations[i]\<close>
  goes to the store, and \<open>deviations = [...]\<close> makes a new list. The function has no
  statement that assigns to an element of a list, and none that reads \<open>languages\<close>.
\<close>

definition calculate_morans_i_store ::
  "nat \<Rightarrow> nat \<Rightarrow> nat \<Rightarrow> py_store \<Rightarrow> (py_error + real \<times> real \<times> real) \<times> py_store" where
  "calculate_morans_i_store languages values weights s =
     (let n = length (float_lists s values) in
      if n < 3 then (Inr (0, 0, 1), s)
      else
        let mean_val = sum_list (float_lists s values) / real n;
            (deviations, s') =
               new_float_list (map (\<lambda>v. v - mean_val) (float_lists s values)) s;
            sum_sq_dev = sum_list (map (\<lambda>d. d ^ 2) (float_lists s' deviations))
        in if sum_sq_dev = 0 then (Inr (0, 0, 1), s')
           else
             (case cross_outer (matrix_at s' weights) (float_lists s' deviations) n [0..<n]
                     (0, 0) of
                Inl e \<Rightarrow> (Inl e, s')
              | Inr (numerator, W) \<Rightarrow>
                  if W = 0 then (Inr (0, 0, 1), s')
                  else
                    let I = (real n / W) * (numerator / sum_sq_dev);
                        E_I = - 1 / (real n - 1)
                    in (case variance_sums (matrix_at s' weights) n [0..<n] (0, 0) of
                          Inl e \<Rightarrow> (Inl e, s')
                        | Inr (S1_twice, S2) \<Rightarrow>
                            let S1 = S1_twice / 2;
                                m2 = sum_sq_dev / real n;
                                m4 = sum_list (map (\<lambda>d. d ^ 4) (float_lists s' deviations))
                                       / real n;
                                b2 = (if m2 > 0 then m4 / (m2 ^ 2) else 3);
                                A = real n * (((real n) ^ 2 - 3 * real n + 3) * S1
                                      - real n * S2 + 3 * W ^ 2);
                                B = b2 * (((real n) ^ 2 - real n) * S1
                                      - 2 * real n * S2 + 6 * W ^ 2);
                                C = (real n - 1) * (real n - 2) * (real n - 3) * W ^ 2
                            in if C = 0 then (Inr (I, 0, 1), s')
                               else
                                 let var_I = (A - B) / C - E_I ^ 2
                                 in if var_I \<le> 0 then (Inr (I, 0, 1), s')
                                    else
                                      let z = (I - E_I) / sqrt var_I;
                                          p = 2 * (1 - (1 / 2) * (1 + erf (\<bar>z\<bar> / sqrt 2)))
                                      in (Inr (I, z, p), s'))))"

text \<open>A store for the instance: the vector \<open>[1, 1, 0, 0]\<close> and the chain of four points.\<close>

definition chain_store :: py_store where
  "chain_store =
     \<lparr>float_lists = (\<lambda>a. [])(0 := [1, 1, 0, 0], 1 := [0, 1, 0, 0], 2 := [1 / 2, 0, 1 / 2, 0],
         3 := [0, 1 / 2, 0, 1 / 2], 4 := [0, 0, 1, 0]),
      row_lists = (\<lambda>a. [])(0 := [1, 2, 3, 4]),
      language_lists = (\<lambda>a. []),
      next_float_list = 5\<rparr>"

section \<open>Properties\<close>

subsection \<open>The distance engine\<close>

lemma sin_half_sq: "(sin (x / 2))\<^sup>2 = (1 - cos x) / 2" for x :: real
  using cos_double_sin [of "x / 2"] by simp

lemma haversine_a_convex:
  "haversine_a lat1 lon1 lat2 lon2 =
     (1 - (sin (radians (lon2 - lon1) / 2))\<^sup>2) * ((1 - cos (radians lat2 - radians lat1)) / 2)
     + (sin (radians (lon2 - lon1) / 2))\<^sup>2 * ((1 + cos (radians lat1 + radians lat2)) / 2)"
proof -
  define s where "s = (sin (radians (lon2 - lon1) / 2))\<^sup>2"
  define c1 where "c1 = cos (radians lat2 - radians lat1)"
  define c2 where "c2 = cos (radians lat1 + radians lat2)"
  define p where "p = cos (radians lat1) * cos (radians lat2)"
  have r: "radians (lat2 - lat1) = radians lat2 - radians lat1"
    by (simp add: radians_def left_diff_distrib)
  have p: "p = (c1 + c2) / 2"
    by (simp add: p_def c1_def c2_def cos_diff cos_add)
  have "haversine_a lat1 lon1 lat2 lon2 = (1 - c1) / 2 + p * s"
    unfolding haversine_a_def Let_def r sin_half_sq [of "radians lat2 - radians lat1"]
    by (simp add: s_def c1_def p_def)
  also have "\<dots> = (1 - s) * ((1 - c1) / 2) + s * ((1 + c2) / 2)"
    unfolding p by (simp add: field_simps)
  finally show ?thesis
    by (simp add: s_def c1_def c2_def)
qed

lemma haversine_a_nonneg: "0 \<le> haversine_a lat1 lon1 lat2 lon2"
proof -
  let ?s = "(sin (radians (lon2 - lon1) / 2))\<^sup>2"
  have s: "0 \<le> ?s" "?s \<le> 1" by (simp_all add: abs_square_le_1)
  have c1: "0 \<le> (1 - cos (radians lat2 - radians lat1)) / 2"
    using cos_le_one [of "radians lat2 - radians lat1"] by simp
  have "0 \<le> 1 + cos (radians lat1 + radians lat2)"
    using cos_ge_minus_one [of "radians lat1 + radians lat2"] by linarith
  then have c2: "0 \<le> (1 + cos (radians lat1 + radians lat2)) / 2"
    by simp
  have "0 \<le> (1 - ?s) * ((1 - cos (radians lat2 - radians lat1)) / 2)"
    using s c1 by (intro mult_nonneg_nonneg) simp_all
  moreover have "0 \<le> ?s * ((1 + cos (radians lat1 + radians lat2)) / 2)"
    using s c2 by (intro mult_nonneg_nonneg) simp_all
  ultimately show ?thesis unfolding haversine_a_convex by linarith
qed

lemma haversine_a_le_one: "haversine_a lat1 lon1 lat2 lon2 \<le> 1"
proof -
  let ?s = "(sin (radians (lon2 - lon1) / 2))\<^sup>2"
  have s: "0 \<le> ?s" "?s \<le> 1" by (simp_all add: abs_square_le_1)
  have c1: "(1 - cos (radians lat2 - radians lat1)) / 2 \<le> 1"
    using cos_ge_minus_one [of "radians lat2 - radians lat1"] by simp
  have c2: "(1 + cos (radians lat1 + radians lat2)) / 2 \<le> 1"
    using cos_le_one [of "radians lat1 + radians lat2"] by simp
  have "(1 - ?s) * ((1 - cos (radians lat2 - radians lat1)) / 2) \<le> 1 - ?s"
    using s c1 by (intro mult_left_le) simp_all
  moreover have "?s * ((1 + cos (radians lat1 + radians lat2)) / 2) \<le> ?s"
    using s c2 by (intro mult_left_le) simp_all
  ultimately show ?thesis unfolding haversine_a_convex by linarith
qed

lemma haversine_distance_eq:
  "haversine_distance lat1 lon1 lat2 lon2 = Inr (haversine_km lat1 lon1 lat2 lon2)"
  using haversine_a_nonneg [of lat1 lon1 lat2 lon2] haversine_a_le_one [of lat1 lon1 lat2 lon2]
  by (simp add: haversine_distance_def haversine_km_def py_sqrt_def Let_def)

lemma atan2_nonneg: "0 \<le> y \<Longrightarrow> 0 \<le> x \<Longrightarrow> 0 \<le> atan2 y x"
  by (auto simp: atan2_def zero_le_arctan_iff)

lemma haversine_km_nonneg: "0 \<le> haversine_km lat1 lon1 lat2 lon2"
  unfolding haversine_km_def
  by (intro mult_nonneg_nonneg atan2_nonneg) 
     (simp_all add: haversine_a_nonneg haversine_a_le_one)

lemma haversine_a_same: "haversine_a lat lon lat lon = 0"
  by (simp add: haversine_a_def radians_def)

lemma haversine_km_same: "haversine_km lat lon lat lon = 0"
  by (simp add: haversine_km_def haversine_a_same atan2_def)

subsection \<open>The weights builder as a function of the point list\<close>

lemma fold_update_nth:
  "distinct is \<Longrightarrow> \<forall>i\<in>set is. i < length ws \<Longrightarrow>
   fold (\<lambda>i w. w[i := f i (w ! i)]) is ws =
     map (\<lambda>i. if i \<in> set is then f i (ws ! i) else ws ! i) [0..<length ws]"
proof (induction "is" arbitrary: ws)
  case Nil
  then show ?case by (simp add: map_nth)
next
  case (Cons i "is")
  let ?ws = "ws[i := f i (ws ! i)]"
  have "fold (\<lambda>i w. w[i := f i (w ! i)]) (i # is) ws = fold (\<lambda>i w. w[i := f i (w ! i)]) is ?ws"
    by simp
  also have "\<dots> = map (\<lambda>j. if j \<in> set is then f j (?ws ! j) else ?ws ! j) [0..<length ?ws]"
    using Cons.prems by (intro Cons.IH) simp_all
  also have "\<dots> = map (\<lambda>j. if j \<in> set (i # is) then f j (ws ! j) else ws ! j) [0..<length ws]"
    using Cons.prems by (auto simp: nth_list_update)
  finally show ?case .
qed

lemma collect_distances_eq:
  "collect_distances languages i js acc =
     Inr (acc @ map (\<lambda>j. (j, pair_km languages i j)) (filter (\<lambda>j. j \<noteq> i) js))"
  by (induction js arbitrary: acc) (auto simp: haversine_distance_eq pair_km_def)

lemma collect_distances_candidates:
  "collect_distances languages i [0..<length languages] [] = Inr (candidates languages i)"
  by (simp add: collect_distances_eq candidates_def)

lemma fill_rows_fold:
  "fill_rows languages k idw is ws =
     Inr (fold (\<lambda>i w. w[i := assign_weights idw (neighbors_of languages k i) (w ! i)]) is ws)"
  by (induction "is" arbitrary: ws)
     (simp_all add: collect_distances_candidates neighbors_of_def Let_def)

lemma fill_rows_replicate:
  "fill_rows languages k idw [0..<length languages]
      (replicate (length languages) (replicate (length languages) 0)) =
     Inr (map (raw_row languages k idw) [0..<length languages])"
  unfolding fill_rows_fold
  by (subst fold_update_nth) (simp_all add: raw_row_def)

lemma divide_row_eq:
  "length row = n \<Longrightarrow> divide_row n s row = map (\<lambda>w. w / s) row"
  unfolding divide_row_def
  by (subst fold_update_nth) (auto intro: nth_equalityI)

lemma row_standardize_fold:
  "row_standardize n is ws = fold (\<lambda>i w. w[i := normalize_row n (w ! i)]) is ws"
  by (induction "is" arbitrary: ws) (simp_all add: normalize_row_def Let_def)

lemma row_standardize_eq:
  "length ws = n \<Longrightarrow> row_standardize n [0..<n] ws = map (normalize_row n) ws"
  unfolding row_standardize_fold
  by (subst fold_update_nth) (auto intro: nth_equalityI)

lemma compute_spatial_weights_eq:
  "compute_spatial_weights languages k idw =
     Inr (map (\<lambda>i. normalize_row (length languages) (raw_row languages k idw i))
            [0..<length languages])"
  by (simp add: compute_spatial_weights_def Let_def fill_rows_replicate row_standardize_eq)

lemma neighbor_weight_pos: "0 < neighbor_weight idw d"
  by (simp add: neighbor_weight_def max_def)

lemma assign_weights_fold:
  "assign_weights idw nb row = fold (\<lambda>(j, d) r. r[j := neighbor_weight idw d]) nb row"
  by (cases idw) (simp_all add: assign_weights_def neighbor_weight_def)

lemma length_assign_weights [simp]: "length (assign_weights idw nb row) = length row"
  unfolding assign_weights_fold by (induction nb arbitrary: row) auto

lemma assign_weights_nth_notin:
  "j \<notin> fst ` set nb \<Longrightarrow> assign_weights idw nb row ! j = row ! j"
  unfolding assign_weights_fold by (induction nb arbitrary: row) auto

lemma assign_weights_nth_in:
  "distinct (map fst nb) \<Longrightarrow> (j, d) \<in> set nb \<Longrightarrow> j < length row \<Longrightarrow>
   assign_weights idw nb row ! j = neighbor_weight idw d"
proof (induction nb arbitrary: row)
  case Nil
  then show ?case by simp
next
  case (Cons x nb)
  obtain j' d' where x: "x = (j', d')" by (cases x)
  show ?case
  proof (cases "(j, d) \<in> set nb")
    case True
    then show ?thesis
      using Cons.IH [of "row[j' := neighbor_weight idw d']"] Cons.prems
      by (simp add: x assign_weights_fold)
  next
    case False
    then have eq: "j' = j" "d' = d" using Cons.prems x by auto
    have "j \<notin> fst ` set nb" using Cons.prems x eq by auto
    then have "assign_weights idw nb (row[j := neighbor_weight idw d]) ! j =
               (row[j := neighbor_weight idw d]) ! j"
      by (rule assign_weights_nth_notin)
    then show ?thesis using Cons.prems
      by (simp add: x eq assign_weights_fold)
  qed
qed

lemma py_slice_to_subset: "set (py_slice_to k xs) \<subseteq> set xs"
  by (auto simp: py_slice_to_def dest: in_set_takeD)

lemma distinct_map_fst_py_slice_to:
  "distinct (map fst xs) \<Longrightarrow> distinct (map fst (py_slice_to k xs))"
  by (simp add: py_slice_to_def take_map [symmetric])

lemma distinct_map_fst_sort_key:
  "distinct (map fst xs) \<Longrightarrow> distinct (map fst (sort_key f xs))"
proof -
  assume d: "distinct (map fst xs)"
  have "mset (map fst (sort_key f xs)) = mset (map fst xs)"
    by simp
  then show ?thesis using d by (metis mset_eq_imp_distinct_iff)
qed

lemma distinct_fst_candidates: "distinct (map fst (candidates languages i))"
  by (simp add: candidates_def comp_def)

lemma candidates_set:
  "set (candidates languages i) =
     {(j, pair_km languages i j) | j. j < length languages \<and> j \<noteq> i}"
  by (auto simp: candidates_def)

lemma length_candidates: "i < length languages \<Longrightarrow> length (candidates languages i) = length languages - 1"
proof -
  assume i: "i < length languages"
  have "length (candidates languages i) = card {j. j < length languages \<and> j \<noteq> i}"
    unfolding candidates_def length_map
    by (subst distinct_card [symmetric]) (auto intro!: arg_cong [where f = card])
  also have "{j. j < length languages \<and> j \<noteq> i} = {..<length languages} - {i}" by auto
  finally show ?thesis using i by simp
qed

lemma neighbors_of_subset: "set (neighbors_of languages k i) \<subseteq> set (candidates languages i)"
  unfolding neighbors_of_def using py_slice_to_subset [of k "sort_key snd (candidates languages i)"]
  by simp

lemma distinct_fst_neighbors_of: "distinct (map fst (neighbors_of languages k i))"
  unfolding neighbors_of_def
  by (intro distinct_map_fst_py_slice_to distinct_map_fst_sort_key distinct_fst_candidates)

lemma length_raw_row [simp]: "length (raw_row languages k idw i) = length languages"
  by (simp add: raw_row_def)

lemma raw_row_nth:
  "j < length languages \<Longrightarrow>
   raw_row languages k idw i ! j =
     (if j \<in> fst ` set (neighbors_of languages k i)
      then neighbor_weight idw (pair_km languages i j) else 0)"
proof (cases "j \<in> fst ` set (neighbors_of languages k i)")
  case True
  assume j: "j < length languages"
  from True obtain d where d: "(j, d) \<in> set (neighbors_of languages k i)" by force
  then have "d = pair_km languages i j"
    using neighbors_of_subset [of languages k i] by (auto simp: candidates_set)
  then show ?thesis
    using True d j assign_weights_nth_in [OF distinct_fst_neighbors_of d, of "replicate (length languages) 0" idw]
    by (simp add: raw_row_def)
next
  case False
  assume j: "j < length languages"
  then show ?thesis using False
    by (simp add: raw_row_def assign_weights_nth_notin)
qed

lemma raw_row_nonneg: "x \<in> set (raw_row languages k idw i) \<Longrightarrow> 0 \<le> x"
  using neighbor_weight_pos [of idw]
  by (auto simp: in_set_conv_nth raw_row_nth less_imp_le)

lemma raw_row_diag: "i < length languages \<Longrightarrow> raw_row languages k idw i ! i = 0"
  using neighbors_of_subset [of languages k i]
  by (subst raw_row_nth) (auto simp: candidates_set)

lemma raw_row_sum_pos:
  assumes "neighbors_of languages k i \<noteq> []"
  shows "0 < sum_list (raw_row languages k idw i)"
proof -
  from assms obtain j d where jd: "(j, d) \<in> set (neighbors_of languages k i)"
    by (cases "neighbors_of languages k i") auto
  then have j: "j < length languages"
    using neighbors_of_subset [of languages k i] by (auto simp: candidates_set)
  have "j \<in> fst ` set (neighbors_of languages k i)" using jd by force
  then have "0 < raw_row languages k idw i ! j"
    using j by (simp add: raw_row_nth neighbor_weight_pos)
  moreover have "raw_row languages k idw i ! j \<in> set (raw_row languages k idw i)"
    using j by simp
  ultimately have "sum_list (raw_row languages k idw i) \<noteq> 0"
    using sum_list_nonneg_eq_0_iff [of "raw_row languages k idw i"] raw_row_nonneg
    by (metis less_irrefl)
  moreover have "0 \<le> sum_list (raw_row languages k idw i)"
    by (intro sum_list_nonneg raw_row_nonneg)
  ultimately show ?thesis by simp
qed

lemma raw_row_zero:
  assumes "neighbors_of languages k i = []" "j < length languages"
  shows "raw_row languages k idw i ! j = 0"
  using assms by (simp add: raw_row_nth)

lemma normalize_row_pos:
  "length row = n \<Longrightarrow> 0 < sum_list row \<Longrightarrow>
   normalize_row n row = map (\<lambda>w. w / sum_list row) row"
  by (simp add: normalize_row_def divide_row_eq)

lemma normalize_row_zero:
  "\<not> 0 < sum_list row \<Longrightarrow> normalize_row n row = row"
  by (simp add: normalize_row_def)

lemma sum_list_normalize_row:
  "length row = n \<Longrightarrow> 0 < sum_list row \<Longrightarrow> sum_list (normalize_row n row) = 1"
proof -
  assume a: "length row = n" "0 < sum_list row"
  have "sum_list (map (\<lambda>w. w / c) row) = sum_list row / c" for c
    by (induction row) (simp_all add: add_divide_distrib)
  then show ?thesis using a by (simp add: normalize_row_pos)
qed

lemma length_py_slice_to:
  "length (py_slice_to k xs) =
     (if 0 \<le> k then min (nat k) (length xs) else length xs - nat (- k))"
  by (simp add: py_slice_to_def min.commute)

lemma length_neighbors_of:
  "i < length languages \<Longrightarrow> 0 \<le> k \<Longrightarrow>
   length (neighbors_of languages k i) = min (nat k) (length languages - 1)"
  by (simp add: neighbors_of_def length_py_slice_to length_candidates)

lemma neighbors_of_nonempty:
  assumes "1 \<le> k" "2 \<le> length languages" "i < length languages"
  shows "neighbors_of languages k i \<noteq> []"
proof -
  have "length (neighbors_of languages k i) = min (nat k) (length languages - 1)"
    using assms by (simp add: length_neighbors_of)
  also have "\<dots> > 0" using assms by simp
  finally show ?thesis by auto
qed

lemma normalized_nth:
  assumes "i < length languages" "j < length languages"
  shows "normalize_row (length languages) (raw_row languages k idw i) ! j =
           (if neighbors_of languages k i = [] then 0
            else raw_row languages k idw i ! j / sum_list (raw_row languages k idw i))"
proof (cases "neighbors_of languages k i = []")
  case True
  have "\<not> 0 < sum_list (raw_row languages k idw i)"
  proof -
    have "\<forall>x\<in>set (raw_row languages k idw i). x = 0"
      using True by (auto simp: in_set_conv_nth raw_row_zero)
    then have "sum_list (raw_row languages k idw i) = 0"
      by (subst sum_list_nonneg_eq_0_iff) auto
    then show ?thesis by simp
  qed
  then show ?thesis using True assms by (simp add: normalize_row_zero raw_row_zero)
next
  case False
  then show ?thesis using assms raw_row_sum_pos [OF False, of idw]
    by (simp add: normalize_row_pos)
qed

lemma normalized_nonzero_iff:
  assumes "i < length languages" "j < length languages"
  shows "normalize_row (length languages) (raw_row languages k idw i) ! j \<noteq> 0
           \<longleftrightarrow> j \<in> fst ` set (neighbors_of languages k i)"
proof (cases "neighbors_of languages k i = []")
  case True
  then show ?thesis using assms by (simp add: normalized_nth)
next
  case False
  have "sum_list (raw_row languages k idw i) \<noteq> 0"
    using raw_row_sum_pos [OF False, of idw] by simp
  moreover have "neighbor_weight idw d \<noteq> 0" for d
    using neighbor_weight_pos [of idw d] by simp
  ultimately show ?thesis using False assms
    by (simp add: normalized_nth raw_row_nth)
qed

lemma normalized_nonneg:
  assumes "i < length languages" "j < length languages"
  shows "0 \<le> normalize_row (length languages) (raw_row languages k idw i) ! j"
proof (cases "neighbors_of languages k i = []")
  case True
  then show ?thesis using assms by (simp add: normalized_nth)
next
  case False
  have "0 \<le> raw_row languages k idw i ! j"
    using assms by (intro raw_row_nonneg [of _ languages k idw i]) simp
  then show ?thesis using False assms raw_row_sum_pos [OF False, of idw]
    by (simp add: normalized_nth)
qed

lemma length_normalize_row [simp]: "length row = n \<Longrightarrow> length (normalize_row n row) = n"
  by (simp add: normalize_row_def divide_row_eq Let_def)

lemma normalized_sum:
  assumes "neighbors_of languages k i \<noteq> []"
  shows "sum_list (normalize_row (length languages) (raw_row languages k idw i)) = 1"
  using raw_row_sum_pos [OF assms, of idw] by (simp add: sum_list_normalize_row)

subsection \<open>The stable sort orders by distance, then by index\<close>

lemma insort_closer:
  "sorted_wrt closer_spec ys \<Longrightarrow> \<forall>y\<in>set ys. fst x < fst y \<Longrightarrow>
   sorted_wrt closer_spec (insort_key snd x ys)"
proof (induction ys)
  case Nil
  then show ?case by simp
next
  case (Cons y ys)
  show ?case
  proof (cases "snd x \<le> snd y")
    case True
    have "closer_spec x z" if "z \<in> set (y # ys)" for z
    proof -
      have "snd y \<le> snd z" using that Cons.prems(1) by (auto simp: closer_spec_def)
      moreover have "fst x < fst z" using that Cons.prems(2) by auto
      ultimately show ?thesis using True by (auto simp: closer_spec_def)
    qed
    then show ?thesis using True Cons.prems(1) by auto
  next
    case False
    then have "closer_spec y x" by (simp add: closer_spec_def)
    moreover have "sorted_wrt closer_spec (insort_key snd x ys)"
      using Cons by auto
    ultimately show ?thesis using False Cons.prems(1) by (auto simp: set_insort_key)
  qed
qed

lemma sort_key_closer:
  "sorted_wrt (<) (map fst xs) \<Longrightarrow> sorted_wrt closer_spec (sort_key snd xs)"
proof (induction xs)
  case Nil
  then show ?case by simp
next
  case (Cons x xs)
  then show ?case by (auto intro!: insort_closer)
qed

lemma sorted_fst_candidates: "sorted_wrt (<) (map fst (candidates languages i))"
proof -
  have "map fst (candidates languages i) = filter (\<lambda>j. j \<noteq> i) [0..<length languages]"
    by (simp add: candidates_def comp_def)
  then show ?thesis by (simp add: sorted_wrt_filter)
qed

lemma sorted_candidates_closer:
  "sorted_wrt closer_spec (sort_key snd (candidates languages i))"
  by (intro sort_key_closer sorted_fst_candidates)

lemma closer_sorted_unique:
  "sorted_wrt closer_spec xs \<Longrightarrow> sorted_wrt closer_spec ys \<Longrightarrow> mset xs = mset ys \<Longrightarrow> xs = ys"
proof (induction xs arbitrary: ys)
  case Nil
  then show ?case by simp
next
  case (Cons x xs)
  then obtain y ys' where ys: "ys = y # ys'" by (cases ys) auto
  have irr: "\<not> closer_spec a a" for a by (simp add: closer_spec_def)
  have asym: "closer_spec a b \<Longrightarrow> \<not> closer_spec b a" for a b by (auto simp: closer_spec_def)
  have "x = y"
  proof (rule ccontr)
    assume ne: "x \<noteq> y"
    have "x \<in> set ys" using Cons.prems(3) by (metis list.set_intros(1) mset_eq_setD)
    then have "x \<in> set ys'" using ne ys by simp
    then have 1: "closer_spec y x" using Cons.prems(2) ys by simp
    have "y \<in> set (x # xs)" using Cons.prems(3) ys by (metis list.set_intros(1) mset_eq_setD)
    then have "y \<in> set xs" using ne by simp
    then have "closer_spec x y" using Cons.prems(1) by simp
    then show False using 1 asym by blast
  qed
  moreover have "xs = ys'"
    using Cons.prems ys \<open>x = y\<close> by (intro Cons.IH) simp_all
  ultimately show ?case using ys by simp
qed

subsection \<open>The loops of the autocorrelation calculator as sums\<close>

lemma weight_at_square:
  "square_matrix n w \<Longrightarrow> i < n \<Longrightarrow> j < n \<Longrightarrow> weight_at w i j = Inr (w ! i ! j)"
  by (simp add: square_matrix_def weight_at_def py_get_def)

lemma py_get_square: "square_matrix n w \<Longrightarrow> i < n \<Longrightarrow> py_get w i = Inr (w ! i)"
  by (simp add: square_matrix_def py_get_def)

lemma sum_list_upt_lessThan: "sum_list (map f [0..<n]) = sum f {..<n}"
  by (simp add: interv_sum_list_conv_sum_set_nat atLeast0LessThan)

lemma sum_list_upt_others:
  "i < n \<Longrightarrow> sum_list (map f (filter (\<lambda>j. i \<noteq> j) [0..<n])) = sum f ({..<n} - {i})"
proof -
  have "sum_list (map f (filter (\<lambda>j. i \<noteq> j) [0..<n])) = sum f (set (filter (\<lambda>j. i \<noteq> j) [0..<n]))"
    by (rule sum_list_distinct_conv_sum_set) simp
  also have "set (filter (\<lambda>j. i \<noteq> j) [0..<n]) = {..<n} - {i}" by auto
  finally show ?thesis .
qed

lemma sum_list_row: "length row = n \<Longrightarrow> sum_list row = (\<Sum>j<n. row ! j)"
  by (simp add: sum_list_sum_nth atLeast0LessThan)

lemma sum_list_map_nth: "sum_list (map f xs) = (\<Sum>i<length xs. f (xs ! i))"
  using sum_list_sum_nth [of "map f xs"] by (simp add: atLeast0LessThan)

lemma cross_inner_eq:
  assumes "square_matrix n w" "i < n" "\<forall>j\<in>set js. j < n"
  shows "cross_inner w dv i js acc =
           Inr (fst acc + sum_list (map (\<lambda>j. w ! i ! j * dv ! i * dv ! j) (filter (\<lambda>j. i \<noteq> j) js)),
                snd acc + sum_list (map (\<lambda>j. w ! i ! j) (filter (\<lambda>j. i \<noteq> j) js)))"
  using assms(3)
proof (induction js arbitrary: acc)
  case Nil
  then show ?case by simp
next
  case (Cons j js)
  show ?case
  proof (cases "i = j")
    case True
    then show ?thesis using Cons.IH [of acc] Cons.prems by simp
  next
    case False
    then show ?thesis
      using Cons.IH Cons.prems assms(1,2) by (simp add: weight_at_square add.assoc)
  qed
qed

lemma cross_outer_eq:
  assumes "square_matrix n w" "\<forall>i\<in>set is. i < n"
  shows "cross_outer w dv n is acc =
           Inr (fst acc + sum_list (map (\<lambda>i. \<Sum>j\<in>{..<n} - {i}. w ! i ! j * dv ! i * dv ! j) is),
                snd acc + sum_list (map (\<lambda>i. \<Sum>j\<in>{..<n} - {i}. w ! i ! j) is))"
  using assms(2)
proof (induction "is" arbitrary: acc)
  case Nil
  then show ?case by simp
next
  case (Cons i "is")
  then show ?case
    using assms(1) by (simp add: cross_inner_eq sum_list_upt_others add.assoc)
qed

lemma column_sum_eq:
  assumes "square_matrix n w" "i < n" "\<forall>j\<in>set js. j < n"
  shows "column_sum w i js acc = Inr (acc + sum_list (map (\<lambda>j. w ! j ! i) js))"
  using assms(3)
proof (induction js arbitrary: acc)
  case Nil
  then show ?case by simp
next
  case (Cons j js)
  then show ?case using assms(1,2) by (simp add: weight_at_square add.assoc)
qed

lemma s1_inner_eq:
  assumes "square_matrix n w" "i < n" "\<forall>j\<in>set js. j < n"
  shows "s1_inner w i js S1 = Inr (S1 + sum_list (map (\<lambda>j. (w ! i ! j + w ! j ! i) ^ 2) js))"
  using assms(3)
proof (induction js arbitrary: S1)
  case Nil
  then show ?case by simp
next
  case (Cons j js)
  then show ?case using assms(1,2) by (simp add: weight_at_square add.assoc)
qed

lemma variance_sums_eq:
  assumes "square_matrix n w" "\<forall>i\<in>set is. i < n"
  shows "variance_sums w n is acc =
           Inr (fst acc + sum_list (map (\<lambda>i. \<Sum>j<n. (w ! i ! j + w ! j ! i) ^ 2) is),
                snd acc + sum_list (map (\<lambda>i. ((\<Sum>j<n. w ! i ! j) + (\<Sum>j<n. w ! j ! i)) ^ 2) is))"
  using assms(2)
proof (induction "is" arbitrary: acc)
  case Nil
  then show ?case by simp
next
  case (Cons i "is")
  have row: "sum_list (w ! i) = (\<Sum>j<n. w ! i ! j)"
    using assms(1) Cons.prems by (intro sum_list_row) (simp add: square_matrix_def)
  show ?case
    using assms(1) Cons
    by (simp add: py_get_square column_sum_eq s1_inner_eq sum_list_upt_lessThan row add.assoc)
qed

lemma deviations_nth:
  "i < length x \<Longrightarrow> map (\<lambda>v. v - sum_list x / real (length x)) x ! i = deviation_spec x i"
  by (simp add: deviation_spec_def sum_list_row [of x "length x"])

lemma sum_sq_dev_code:
  "sum_list (map (\<lambda>d. d ^ 2) (map (\<lambda>v. v - sum_list x / real (length x)) x)) = sum_sq_dev_spec x"
proof -
  have "sum_list (map (\<lambda>d. d ^ 2) (map (\<lambda>v. v - sum_list x / real (length x)) x)) =
        (\<Sum>i<length x. (map (\<lambda>v. v - sum_list x / real (length x)) x ! i) ^ 2)"
    using sum_list_map_nth [of "\<lambda>d. d ^ 2" "map (\<lambda>v. v - sum_list x / real (length x)) x"]
    by simp
  also have "\<dots> = (\<Sum>i<length x. (deviation_spec x i) ^ 2)"
    by (intro sum.cong refl) (simp add: deviation_spec_def sum_list_row [of x "length x"])
  finally show ?thesis by (simp add: sum_sq_dev_spec_def)
qed

lemma sum_fourth_dev_code:
  "sum_list (map (\<lambda>d. d ^ 4) (map (\<lambda>v. v - sum_list x / real (length x)) x)) =
     (\<Sum>i<length x. (deviation_spec x i) ^ 4)"
proof -
  have "sum_list (map (\<lambda>d. d ^ 4) (map (\<lambda>v. v - sum_list x / real (length x)) x)) =
        (\<Sum>i<length x. (map (\<lambda>v. v - sum_list x / real (length x)) x ! i) ^ 4)"
    using sum_list_map_nth [of "\<lambda>d. d ^ 4" "map (\<lambda>v. v - sum_list x / real (length x)) x"]
    by simp
  also have "\<dots> = (\<Sum>i<length x. (deviation_spec x i) ^ 4)"
    by (intro sum.cong refl) (simp add: deviation_spec_def sum_list_row [of x "length x"])
  finally show ?thesis .
qed

lemma cross_outer_code:
  assumes "square_matrix (length x) w"
  shows "cross_outer w (map (\<lambda>v. v - sum_list x / real (length x)) x) (length x)
           [0..<length x] (0, 0) =
         Inr (cross_product_spec x w, W_total_spec (length x) w)"
proof -
  let ?dv = "map (\<lambda>v. v - sum_list x / real (length x)) x"
  let ?n = "length x"
  have "(\<Sum>i<?n. \<Sum>j\<in>{..<?n} - {i}. w ! i ! j * ?dv ! i * ?dv ! j) = cross_product_spec x w"
    unfolding cross_product_spec_def
    by (intro sum.cong refl) (simp add: deviation_spec_def sum_list_row [of x "length x"])
  then show ?thesis
    using assms
    by (simp add: cross_outer_eq sum_list_upt_lessThan W_total_spec_def)
qed

lemma variance_sums_code:
  assumes "square_matrix n w"
  shows "variance_sums w n [0..<n] (0, 0) = Inr (2 * S1_spec n w, S2_spec n w)"
  using assms
  by (simp add: variance_sums_eq sum_list_upt_lessThan S1_spec_def S2_spec_def)

lemma sum_sq_dev_nonneg: "0 \<le> sum_sq_dev_spec x"
  by (simp add: sum_sq_dev_spec_def sum_nonneg)

lemma calculate_morans_i_early:
  "length x < 3 \<or> sum_sq_dev_spec x = 0 \<Longrightarrow> calculate_morans_i languages x w = Inr (0, 0, 1)"
  unfolding calculate_morans_i_def Let_def sum_sq_dev_code by auto

lemma calculate_morans_i_square:
  assumes "square_matrix (length x) w"
  shows "calculate_morans_i languages x w = Inr (morans_result_spec x w)"
proof (cases "length x < 3 \<or> sum_sq_dev_spec x = 0")
  case True
  then show ?thesis
    by (auto simp: calculate_morans_i_early morans_result_spec_def)
next
  case False
  then have n: "\<not> length x < 3" and ssd: "sum_sq_dev_spec x \<noteq> 0" by auto
  have "0 < sum_sq_dev_spec x"
    using ssd sum_sq_dev_nonneg [of x] by linarith
  moreover have "0 < real (length x)" using n by (cases x) simp_all
  ultimately have m2: "0 < sum_sq_dev_spec x / real (length x)"
    by (rule divide_pos_pos)
  show ?thesis
  proof (cases "W_total_spec (length x) w = 0")
    case True
    then show ?thesis
      unfolding calculate_morans_i_def Let_def sum_sq_dev_code cross_outer_code [OF assms]
      using n ssd by (simp add: morans_result_spec_def)
  next
    case W: False
    have b2: "(if 0 < sum_sq_dev_spec x / real (length x)
               then (\<Sum>i<length x. (deviation_spec x i) ^ 4) / real (length x)
                      / (sum_sq_dev_spec x / real (length x)) ^ 2
               else 3) = b2_spec x"
      using m2 by (simp add: b2_spec_def)
    show ?thesis
      unfolding calculate_morans_i_def Let_def sum_sq_dev_code sum_fourth_dev_code
        cross_outer_code [OF assms] variance_sums_code [OF assms] b2
      using n ssd W
      by (simp add: morans_result_spec_def morans_I_spec_def C_spec_def var_I_spec_def
          A_spec_def B_spec_def E_I_spec_def z_spec_def p_spec_def Phi_spec_def Let_def)
  qed
qed

subsection \<open>Constant vectors\<close>

lemma constant_sum_sq_dev:
  assumes "constant_vector x"
  shows "sum_sq_dev_spec x = 0"
proof (cases x)
  case Nil
  then show ?thesis by (simp add: sum_sq_dev_spec_def)
next
  case (Cons c cs)
  have all: "x ! i = c" if "i < length x" for i
  proof -
    have "x ! i \<in> set x" using that by simp
    moreover have "c \<in> set x" using Cons by simp
    ultimately show ?thesis using assms unfolding constant_vector_def by blast
  qed
  have "(\<Sum>k<length x. x ! k) = (\<Sum>k<length x. c)"
    by (intro sum.cong refl) (simp add: all)
  then have mean: "(\<Sum>k<length x. x ! k) / real (length x) = c"
    using Cons by simp
  have "deviation_spec x i = 0" if "i < length x" for i
    using that all mean by (simp add: deviation_spec_def)
  then show ?thesis by (simp add: sum_sq_dev_spec_def)
qed

lemma sum_sq_dev_constant:
  assumes "sum_sq_dev_spec x = 0"
  shows "constant_vector x"
proof -
  define m where "m = (\<Sum>k<length x. x ! k) / real (length x)"
  have "(\<Sum>i<length x. (deviation_spec x i) ^ 2) = 0 \<longleftrightarrow>
        (\<forall>i\<in>{..<length x}. (deviation_spec x i) ^ 2 = 0)"
    by (rule sum_nonneg_eq_0_iff) simp_all
  then have sq: "\<forall>i\<in>{..<length x}. (deviation_spec x i) ^ 2 = 0"
    using assms unfolding sum_sq_dev_spec_def by (rule iffD1)
  have mean: "x ! i = m" if "i < length x" for i
  proof -
    have "(deviation_spec x i) ^ 2 = 0" using sq that by simp
    then have "deviation_spec x i = 0" by (simp only: zero_eq_power2)
    then have "x ! i - m = 0" unfolding deviation_spec_def m_def .
    then show ?thesis by (simp only: right_minus_eq)
  qed
  show ?thesis
    unfolding constant_vector_def
  proof (intro ballI)
    fix a b assume "a \<in> set x" "b \<in> set x"
    then obtain i j where ij: "i < length x" "x ! i = a" "j < length x" "x ! j = b"
      by (auto simp: in_set_conv_nth)
    have "a = m" using mean [OF ij(1)] ij(2) by linarith
    moreover have "b = m" using mean [OF ij(3)] ij(4) by linarith
    ultimately show "a = b" by linarith
  qed
qed

lemma sum_sq_dev_zero_iff: "sum_sq_dev_spec x = 0 \<longleftrightarrow> constant_vector x"
  using constant_sum_sq_dev sum_sq_dev_constant by blast

lemma W_total_zero_diagonal:
  assumes "\<forall>i<n. w ! i ! i = 0"
  shows "W_total_spec n w = (\<Sum>i<n. \<Sum>j<n. w ! i ! j)"
proof -
  have "(\<Sum>j\<in>{..<n} - {i}. w ! i ! j) = (\<Sum>j<n. w ! i ! j)" if "i \<in> {..<n}" for i
  proof -
    have "(\<Sum>j\<in>{..<n} - {i}. w ! i ! j) = (\<Sum>j<n. w ! i ! j) - w ! i ! i"
      using that by (simp add: sum_diff1)
    then show ?thesis using assms that by simp
  qed
  then show ?thesis
    unfolding W_total_spec_def by (rule sum.cong [OF refl])
qed

lemma C_spec_nonzero:
  assumes "4 \<le> length x" "W_total_spec (length x) w \<noteq> 0"
  shows "C_spec x w \<noteq> 0"
proof -
  have "4 \<le> real (length x)" using assms(1) by simp
  then show ?thesis using assms(2) by (simp add: C_spec_def Let_def)
qed

lemma sum_others: "i < n \<Longrightarrow> sum f ({..<n} - {i}) = sum f {..<n} - f i" for f :: "nat \<Rightarrow> real"
  by (simp add: sum_diff1)

lemmas eval_sums = sum_others sum.lessThan_Suc eval_nat_numeral

subsection \<open>The autocorrelation calculator\<close>

text \<open>
  Claim C1. For a value vector \<open>x\<close> of length \<open>N \<ge> 3\<close> that is not constant and an
  \<open>N \<times> N\<close> weights matrix whose total weight \<open>W_total\<close> (the sum of \<open>w_ij\<close> over
  \<open>i \<noteq> j\<close>) is not zero, \<open>calculate_morans_i\<close> returns normally, and the statistic it
  returns is \<open>(N / W_total)\<close> times the ratio of the double sum over \<open>i \<noteq> j\<close> of
  \<open>w_ij * (x_i - mean x) * (x_j - mean x)\<close> to the sum of the squared deviations.
\<close>

theorem morans_i_statistic:
  assumes "square_matrix (length x) w" and "3 \<le> length x" and "\<not> constant_vector x"
    and "W_total_spec (length x) w \<noteq> 0"
  shows "\<exists>I z p. calculate_morans_i languages x w = Inr (I, z, p) \<and>
           I = (real (length x) / W_total_spec (length x) w) *
               ((\<Sum>i<length x. \<Sum>j\<in>{..<length x} - {i}.
                    w ! i ! j * deviation_spec x i * deviation_spec x j)
                / (\<Sum>i<length x. (deviation_spec x i) ^ 2))"
proof -
  have "sum_sq_dev_spec x \<noteq> 0" using assms(3) by (simp add: sum_sq_dev_zero_iff)
  then have "fst (morans_result_spec x w) = morans_I_spec x w"
    using assms(2,4) by (simp add: morans_result_spec_def)
  moreover have "calculate_morans_i languages x w = Inr (morans_result_spec x w)"
    using assms(1) by (rule calculate_morans_i_square)
  ultimately obtain z p where
    "calculate_morans_i languages x w = Inr (morans_I_spec x w, z, p)"
    by (cases "morans_result_spec x w") auto
  then have "calculate_morans_i languages x w = Inr (morans_I_spec x w, z, p) \<and>
      morans_I_spec x w = (real (length x) / W_total_spec (length x) w) *
               ((\<Sum>i<length x. \<Sum>j\<in>{..<length x} - {i}.
                    w ! i ! j * deviation_spec x i * deviation_spec x j)
                / (\<Sum>i<length x. (deviation_spec x i) ^ 2))"
    by (simp add: morans_I_spec_def cross_product_spec_def sum_sq_dev_spec_def)
  then show ?thesis by (intro exI)
qed

text \<open>
  Claim C1, an instance: the vector \<open>[1, 1, 0, 0]\<close> on the chain of four points.
\<close>

theorem morans_i_statistic_witness:
  "square_matrix (length values4) chain_weights4 \<and> 3 \<le> length values4 \<and>
   \<not> constant_vector values4 \<and> W_total_spec (length values4) chain_weights4 \<noteq> 0 \<and>
   (\<exists>I z p. calculate_morans_i [] values4 chain_weights4 = Inr (I, z, p) \<and>
      I = (real (length values4) / W_total_spec (length values4) chain_weights4) *
          ((\<Sum>i<length values4. \<Sum>j\<in>{..<length values4} - {i}.
               chain_weights4 ! i ! j * deviation_spec values4 i * deviation_spec values4 j)
           / (\<Sum>i<length values4. (deviation_spec values4 i) ^ 2)))"
proof -
  have 1: "square_matrix (length values4) chain_weights4"
    by (simp add: square_matrix_def values4_def chain_weights4_def)
  have 2: "3 \<le> length values4" by (simp add: values4_def)
  have 3: "\<not> constant_vector values4" by (simp add: constant_vector_def values4_def)
  have 4: "W_total_spec (length values4) chain_weights4 \<noteq> 0"
    by (simp add: W_total_spec_def values4_def chain_weights4_def eval_sums)
  show ?thesis
    using 1 2 3 4 morans_i_statistic [OF 1 2 3 4, of "[]"] by (intro conjI)
qed


lemma values3_facts:
  "length values3 = 3" "\<not> constant_vector values3"
  by (simp_all add: values3_def constant_vector_def)

lemma values4_facts:
  "length values4 = 4" "\<not> constant_vector values4"
  by (simp_all add: values4_def constant_vector_def)

lemma deviation_values4:
  "deviation_spec values4 0 = 1 / 2" "deviation_spec values4 (Suc 0) = 1 / 2"
  "deviation_spec values4 (Suc (Suc 0)) = - 1 / 2"
  "deviation_spec values4 (Suc (Suc (Suc 0))) = - 1 / 2"
  by (simp_all add: deviation_spec_def values4_def eval_sums)

lemma sum_sq_dev_values4: "sum_sq_dev_spec values4 = 1"
  by (simp add: sum_sq_dev_spec_def values4_facts sum.lessThan_Suc eval_nat_numeral
      deviation_values4 power2_eq_square)

lemma b2_values4: "b2_spec values4 = 1"
  by (simp add: b2_spec_def sum_sq_dev_values4 values4_facts sum.lessThan_Suc eval_nat_numeral
      deviation_values4 power2_eq_square power4_eq_xxxx)

lemma chain_weights3_facts:
  "square_matrix 3 chain_weights3" "W_total_spec 3 chain_weights3 = 3"
  by (simp_all add: square_matrix_def W_total_spec_def chain_weights3_def eval_sums)


lemma chain_weights4_facts:
  "square_matrix 4 chain_weights4" "W_total_spec 4 chain_weights4 = 4"
  "S1_spec 4 chain_weights4 = 11 / 2" "S2_spec 4 chain_weights4 = 17"
  by (simp_all add: square_matrix_def W_total_spec_def S1_spec_def S2_spec_def
      chain_weights4_def eval_sums power2_eq_square)


lemma var_chain4: "var_I_spec values4 chain_weights4 = 7 / 18"
  by (simp add: var_I_spec_def A_spec_def B_spec_def C_spec_def E_I_spec_def values4_facts
      chain_weights4_facts b2_values4 Let_def power2_eq_square)

lemma C_chain3: "C_spec values3 chain_weights3 = 0"
  by (simp add: C_spec_def values3_facts Let_def)


text \<open>
  Claim C3. For a non-degenerate input (\<open>N \<ge> 4\<close>, a non-constant value vector, an
  \<open>N \<times> N\<close> matrix with non-zero total weight, \<open>var(I) > 0\<close>; then \<open>C \<noteq> 0\<close> holds by
  itself) \<open>calculate_morans_i\<close> returns the statistic, the z-score
  \<open>(I - E[I]) / sqrt (var(I))\<close> with \<open>E[I] = -1 / (N - 1)\<close> and
  \<open>var(I) = (A - B) / C - E[I]^2\<close>, where \<open>A\<close>, \<open>B\<close> and \<open>C\<close> are formed from \<open>S1\<close>,
  \<open>S2\<close> and \<open>b2\<close> as the specification writes them, and the two-tailed p-value
  \<open>2 * (1 - Phi \<bar>z\<bar>)\<close> for the normal distribution function \<open>Phi\<close> given by \<open>erf\<close>.
  The total weight in \<open>A\<close>, \<open>B\<close> and \<open>C\<close> is the sum over \<open>i \<noteq> j\<close> that the code forms;
  for a matrix with zero diagonal it is the sum of all entries.
\<close>

theorem significance_test:
  assumes "square_matrix (length x) w" and "4 \<le> length x" and "\<not> constant_vector x"
    and "W_total_spec (length x) w \<noteq> 0" and "0 < var_I_spec x w"
  shows "C_spec x w \<noteq> 0 \<and>
         ((\<forall>i<length x. w ! i ! i = 0) \<longrightarrow>
            W_total_spec (length x) w = (\<Sum>i<length x. \<Sum>j<length x. w ! i ! j)) \<and>
         E_I_spec (length x) = - 1 / (real (length x) - 1) \<and>
         var_I_spec x w = (A_spec x w - B_spec x w) / C_spec x w - (- 1 / (real (length x) - 1)) ^ 2 \<and>
         (\<exists>I z p. calculate_morans_i languages x w = Inr (I, z, p) \<and>
            I = morans_I_spec x w \<and>
            z = (I - (- 1 / (real (length x) - 1))) / sqrt (var_I_spec x w) \<and>
            p = 2 * (1 - Phi_spec \<bar>z\<bar>))"
proof -
  have C: "C_spec x w \<noteq> 0" using assms(2,4) by (rule C_spec_nonzero)
  have "sum_sq_dev_spec x \<noteq> 0" using assms(3) by (simp add: sum_sq_dev_zero_iff)
  then have "morans_result_spec x w = (morans_I_spec x w, z_spec x w, p_spec x w)"
    using assms(2,4,5) C by (simp add: morans_result_spec_def)
  then have "calculate_morans_i languages x w =
      Inr (morans_I_spec x w, z_spec x w, p_spec x w)"
    using assms(1) by (simp add: calculate_morans_i_square)
  then have "calculate_morans_i languages x w =
      Inr (morans_I_spec x w, z_spec x w, p_spec x w) \<and>
      morans_I_spec x w = morans_I_spec x w \<and>
      z_spec x w = (morans_I_spec x w - (- 1 / (real (length x) - 1))) / sqrt (var_I_spec x w) \<and>
      p_spec x w = 2 * (1 - Phi_spec \<bar>z_spec x w\<bar>)"
    by (simp add: z_spec_def p_spec_def E_I_spec_def)
  then have "\<exists>I z p. calculate_morans_i languages x w = Inr (I, z, p) \<and>
            I = morans_I_spec x w \<and>
            z = (I - (- 1 / (real (length x) - 1))) / sqrt (var_I_spec x w) \<and>
            p = 2 * (1 - Phi_spec \<bar>z\<bar>)"
    by (intro exI)
  moreover have "(\<forall>i<length x. w ! i ! i = 0) \<longrightarrow>
      W_total_spec (length x) w = (\<Sum>i<length x. \<Sum>j<length x. w ! i ! j)"
    using W_total_zero_diagonal [of "length x" w] by blast
  moreover have "E_I_spec (length x) = - 1 / (real (length x) - 1)"
    by (simp add: E_I_spec_def)
  moreover have "var_I_spec x w =
      (A_spec x w - B_spec x w) / C_spec x w - (- 1 / (real (length x) - 1)) ^ 2"
    by (simp add: E_I_spec_def var_I_spec_def)
  ultimately show ?thesis
    using C by (intro conjI)
qed

theorem significance_test_witness:
  "square_matrix (length values4) chain_weights4 \<and> 4 \<le> length values4 \<and>
   \<not> constant_vector values4 \<and> W_total_spec (length values4) chain_weights4 \<noteq> 0 \<and>
   0 < var_I_spec values4 chain_weights4 \<and>
   chain_weights4 ! 0 ! 0 = 0 \<and> chain_weights4 ! 1 ! 1 = 0 \<and>
   chain_weights4 ! 2 ! 2 = 0 \<and> chain_weights4 ! 3 ! 3 = 0 \<and>
   W_total_spec (length values4) chain_weights4 =
     (\<Sum>i<length values4. \<Sum>j<length values4. chain_weights4 ! i ! j) \<and>
   (\<exists>I z p. calculate_morans_i [] values4 chain_weights4 = Inr (I, z, p) \<and>
      I = morans_I_spec values4 chain_weights4 \<and>
      z = (I - (- 1 / (real (length values4) - 1))) / sqrt (var_I_spec values4 chain_weights4) \<and>
      p = 2 * (1 - Phi_spec \<bar>z\<bar>))"
proof -
  have 1: "square_matrix (length values4) chain_weights4"
    by (simp add: values4_facts chain_weights4_facts)
  have 2: "4 \<le> length values4" by (simp add: values4_facts)
  have 3: "\<not> constant_vector values4" by (rule values4_facts)
  have 4: "W_total_spec (length values4) chain_weights4 \<noteq> 0"
    by (simp add: values4_facts chain_weights4_facts)
  have 5: "0 < var_I_spec values4 chain_weights4" by (simp add: var_chain4)
  have 6: "\<forall>i<length values4. chain_weights4 ! i ! i = 0"
    by (simp add: values4_facts chain_weights4_def eval_nat_numeral less_Suc_eq)
  have 7: "chain_weights4 ! 0 ! 0 = 0" "chain_weights4 ! 1 ! 1 = 0"
    "chain_weights4 ! 2 ! 2 = 0" "chain_weights4 ! 3 ! 3 = 0"
    by (simp_all add: chain_weights4_def)
  show ?thesis
    using 1 2 3 4 5 6 7 significance_test [OF 1 2 3 4 5, of "[]"] by (intro conjI) simp_all
qed

subsection \<open>The permutation tester\<close>

lemma drawn_vectors_mset:
  assumes "\<forall>g y. mset (fst (shuffle g y)) = mset y"
  shows "\<forall>y\<in>set (drawn_vectors shuffle g x m). mset y = mset x"
  using assms by (induction m arbitrary: g) auto

lemma length_drawn_vectors [simp]: "length (drawn_vectors shuffle g x m) = m"
  by (induction m arbitrary: g) auto

lemma permutation_loop_eq:
  assumes "square_matrix (length x) w" and "\<forall>g y. mset (fst (shuffle g y)) = mset y"
  shows "permutation_loop shuffle languages x w observed_I m more_extreme g =
           Inr (more_extreme +
                  length (filter (at_least_as_extreme languages w observed_I)
                            (drawn_vectors shuffle g x m)),
                generator_after shuffle g x m)"
proof (induction m arbitrary: more_extreme g)
  case 0
  show ?case by simp
next
  case (Suc m)
  obtain y g' where s: "shuffle g x = (y, g')" by (cases "shuffle g x")
  have "mset y = mset x" using assms(2) s by (metis fst_conv)
  then have "length y = length x" by (rule mset_eq_length)
  then have sq: "square_matrix (length y) w" using assms(1) by simp
  obtain I z p where r: "morans_result_spec y w = (I, z, p)"
    by (cases "morans_result_spec y w")
  have c: "calculate_morans_i languages y w = Inr (I, z, p)"
    using calculate_morans_i_square [OF sq, of languages] r by simp
  show ?case
    using Suc.IH by (simp add: s c at_least_as_extreme_def)
qed

text \<open>
  Claim C7. For an \<open>N \<times> N\<close> weights matrix, a permutation count \<open>M \<ge> 0\<close> and a
  \<open>shuffle\<close> that returns a permutation of its argument, \<open>permutation_test\<close> returns the
  observed statistic of the unshuffled vector and the p-value \<open>(count + 1) / (M + 1)\<close>,
  where \<open>count\<close> is the number of the \<open>M\<close> shuffled vectors, each a permutation of the
  value vector, whose statistic for the same matrix satisfies
  \<open>\<bar>I_perm\<bar> \<ge> \<bar>I_observed\<bar>\<close>; this p-value is positive, so never 0.
\<close>

theorem permutation_p_value:
  assumes "square_matrix (length x) w" and "\<forall>g y. mset (fst (shuffle g y)) = mset y"
    and "0 \<le> M"
  shows "\<exists>I z p count.
           calculate_morans_i languages x w = Inr (I, z, p) \<and>
           length (drawn_vectors shuffle g x (nat M)) = nat M \<and>
           (\<forall>y\<in>set (drawn_vectors shuffle g x (nat M)). mset y = mset x) \<and>
           count = length (filter (at_least_as_extreme languages w I)
                             (drawn_vectors shuffle g x (nat M))) \<and>
           permutation_test shuffle g languages x w M =
             Inr ((I, (real count + 1) / (real_of_int M + 1)),
                  generator_after shuffle g x (nat M)) \<and>
           0 < (real count + 1) / (real_of_int M + 1)"
proof -
  obtain I z p where r: "morans_result_spec x w = (I, z, p)"
    by (cases "morans_result_spec x w")
  have c: "calculate_morans_i languages x w = Inr (I, z, p)"
    using calculate_morans_i_square [OF assms(1), of languages] r by simp
  let ?count = "length (filter (at_least_as_extreme languages w I) (drawn_vectors shuffle g x (nat M)))"
  have t: "permutation_test shuffle g languages x w M =
             Inr ((I, (real ?count + 1) / (real_of_int M + 1)),
                  generator_after shuffle g x (nat M))"
    using assms(3)
    by (simp add: permutation_test_def c permutation_loop_eq [OF assms(1,2)])
  have pos: "0 < (real ?count + 1) / (real_of_int M + 1)"
    using assms(3) by (intro divide_pos_pos) simp_all
  have "calculate_morans_i languages x w = Inr (I, z, p) \<and>
        length (drawn_vectors shuffle g x (nat M)) = nat M \<and>
        (\<forall>y\<in>set (drawn_vectors shuffle g x (nat M)). mset y = mset x) \<and>
        ?count = ?count \<and>
        permutation_test shuffle g languages x w M =
          Inr ((I, (real ?count + 1) / (real_of_int M + 1)),
               generator_after shuffle g x (nat M)) \<and>
        0 < (real ?count + 1) / (real_of_int M + 1)"
    using c t pos drawn_vectors_mset [OF assms(2)] by simp
  then show ?thesis by (intro exI)
qed

lemma mset_rotate1_eq: "mset (rotate1 ys) = mset ys"
  by (cases ys) simp_all

lemma mset_rotate_eq: "mset (rotate n ys) = mset ys"
  by (induction n) (simp_all add: mset_rotate1_eq)

lemma rotate_shuffle_mset: "\<forall>g y. mset (fst (rotate_shuffle g y)) = mset y"
  by (simp add: rotate_shuffle_def mset_rotate_eq del: rotate_Suc)

theorem permutation_p_value_witness:
  "square_matrix (length values4) chain_weights4 \<and>
   (\<forall>g y. mset (fst (rotate_shuffle g y)) = mset y) \<and> (0::int) \<le> 3 \<and>
   (\<exists>I z p count.
      calculate_morans_i [] values4 chain_weights4 = Inr (I, z, p) \<and>
      count = length (filter (at_least_as_extreme [] chain_weights4 I)
                        (drawn_vectors rotate_shuffle 0 values4 (nat 3))) \<and>
      permutation_test rotate_shuffle 0 [] values4 chain_weights4 3 =
        Inr ((I, (real count + 1) / (real_of_int 3 + 1)),
             generator_after rotate_shuffle 0 values4 (nat 3)) \<and>
      0 < (real count + 1) / (real_of_int 3 + 1))"
proof -
  have 1: "square_matrix (length values4) chain_weights4"
    by (simp add: values4_facts chain_weights4_facts)
  have 3: "(0::int) \<le> 3" by simp
  from permutation_p_value [OF 1 rotate_shuffle_mset 3, of "[]" 0]
  obtain I z p count where
    "calculate_morans_i [] values4 chain_weights4 = Inr (I, z, p)"
    "count = length (filter (at_least_as_extreme [] chain_weights4 I)
                        (drawn_vectors rotate_shuffle 0 values4 (nat 3)))"
    "permutation_test rotate_shuffle 0 [] values4 chain_weights4 3 =
        Inr ((I, (real count + 1) / (real_of_int 3 + 1)),
             generator_after rotate_shuffle 0 values4 (nat 3))"
    "0 < (real count + 1) / (real_of_int 3 + 1)"
    by blast
  then have "\<exists>I z p count.
      calculate_morans_i [] values4 chain_weights4 = Inr (I, z, p) \<and>
      count = length (filter (at_least_as_extreme [] chain_weights4 I)
                        (drawn_vectors rotate_shuffle 0 values4 (nat 3))) \<and>
      permutation_test rotate_shuffle 0 [] values4 chain_weights4 3 =
        Inr ((I, (real count + 1) / (real_of_int 3 + 1)),
             generator_after rotate_shuffle 0 values4 (nat 3)) \<and>
      0 < (real count + 1) / (real_of_int 3 + 1)"
    by (intro exI conjI)
  then show ?thesis using 1 rotate_shuffle_mset 3 by (intro conjI)
qed

subsection \<open>Parameters below 1\<close>

lemma raw_row_no_neighbors:
  "neighbors_of languages k i = [] \<Longrightarrow>
   raw_row languages k idw i = replicate (length languages) 0"
  by (simp add: raw_row_def assign_weights_def)

lemma normalize_row_zeros: "normalize_row n (replicate m 0) = replicate m 0"
  by (simp add: normalize_row_def Let_def sum_list_replicate)

lemma compute_spatial_weights_k0:
  "compute_spatial_weights languages 0 idw =
     Inr (replicate (length languages) (replicate (length languages) 0))"
proof -
  have "neighbors_of languages 0 i = []" for i
    by (simp add: neighbors_of_def py_slice_to_def)
  then have "normalize_row (length languages) (raw_row languages 0 idw i) =
        replicate (length languages) 0" for i
    by (simp add: raw_row_no_neighbors normalize_row_zeros)
  then show ?thesis
    by (simp add: compute_spatial_weights_eq map_replicate_const)
qed

lemma deviation_values3:
  "deviation_spec values3 0 = 2 / 3" "deviation_spec values3 (Suc 0) = - 1 / 3"
  "deviation_spec values3 (Suc (Suc 0)) = - 1 / 3"
  by (simp_all add: deviation_spec_def values3_def eval_sums)

lemma sum_sq_dev_values3: "sum_sq_dev_spec values3 = 2 / 3"
  by (simp add: sum_sq_dev_spec_def values3_facts eval_sums deviation_values3 power2_eq_square)

lemma cross_product_chain3: "cross_product_spec values3 chain_weights3 = - 1 / 6"
  by (simp add: cross_product_spec_def values3_facts eval_sums deviation_values3
      chain_weights3_def)

lemma morans_I_chain3: "morans_I_spec values3 chain_weights3 = - 1 / 4"
  by (simp add: morans_I_spec_def values3_facts chain_weights3_facts sum_sq_dev_values3
      cross_product_chain3)

lemma calculate_chain3: "calculate_morans_i languages values3 chain_weights3 = Inr (- 1 / 4, 0, 1)"
proof -
  have "sum_sq_dev_spec values3 \<noteq> 0"
    using values3_facts by (simp add: sum_sq_dev_zero_iff)
  then have "morans_result_spec values3 chain_weights3 = (- 1 / 4, 0, 1)"
    by (simp add: morans_result_spec_def values3_facts chain_weights3_facts C_chain3
        morans_I_chain3)
  then show ?thesis
    using calculate_morans_i_square [of values3 chain_weights3 languages]
    by (simp add: values3_facts chain_weights3_facts)
qed

text \<open>
  Claim C8, as stated, fails: with \<open>k = 0\<close> the weights builder returns the all-zero
  matrix, and with \<open>M = 0\<close> the permutation tester returns the observed statistic with
  the p-value 1; neither call raises.
\<close>

theorem invalid_parameter_counterexample:
  "compute_spatial_weights two_points 0 True = Inr [[0, 0], [0, 0]] \<and>
   permutation_test rotate_shuffle 0 [] values3 chain_weights3 0 = Inr ((- 1 / 4, 1), 0)"
proof -
  have "compute_spatial_weights two_points 0 True = Inr [[0, 0], [0, 0]]"
    by (simp add: compute_spatial_weights_k0 two_points_def)
  moreover have "permutation_test rotate_shuffle 0 [] values3 chain_weights3 0 =
      Inr ((- 1 / 4, 1), 0)"
    by (simp add: permutation_test_def calculate_chain3)
  ultimately show ?thesis by (rule conjI)
qed

text \<open>
  Claim C8, amended. Neither function checks its parameter: \<open>k = 0\<close> and \<open>M = 0\<close> are
  accepted. With \<open>k = 0\<close> the weights builder, whenever it returns (it computes every
  distance before it slices, so it raises what \<open>haversine_distance\<close> raises), returns
  the all-zero matrix with one row per point. With \<open>M = 0\<close> the permutation tester,
  whenever the observed statistic is computed, draws no permutation, leaves the
  generator as it was and returns the observed statistic with the p-value 1.
\<close>

theorem invalid_parameters_not_rejected:
  "(compute_spatial_weights languages 0 idw = Inr W \<longrightarrow>
      W = replicate (length languages) (replicate (length languages) 0)) \<and>
   (calculate_morans_i languages x w = Inr (I, z, p) \<longrightarrow>
      permutation_test shuffle g languages x w 0 = Inr ((I, 1), g))"
proof (intro conjI impI)
  assume "compute_spatial_weights languages 0 idw = Inr W"
  then show "W = replicate (length languages) (replicate (length languages) 0)"
    by (simp add: compute_spatial_weights_k0)
next
  assume "calculate_morans_i languages x w = Inr (I, z, p)"
  then show "permutation_test shuffle g languages x w 0 = Inr ((I, 1), g)"
    by (simp add: permutation_test_def)
qed

theorem invalid_parameters_not_rejected_witness:
  "compute_spatial_weights two_points 0 False = Inr [[0, 0], [0, 0]] \<and>
   [[0, 0], [0, 0]] = replicate (length two_points) (replicate (length two_points) (0 :: real)) \<and>
   calculate_morans_i [] values3 chain_weights3 = Inr (- 1 / 4, 0, 1) \<and>
   permutation_test rotate_shuffle 5 [] values3 chain_weights3 0 = Inr ((- 1 / 4, 1), 5)"
proof -
  have 1: "compute_spatial_weights two_points 0 False = Inr [[0, 0], [0, 0]]"
    by (simp add: compute_spatial_weights_k0 two_points_def)
  have 2: "calculate_morans_i [] values3 chain_weights3 = Inr (- 1 / 4, 0, 1)"
    by (rule calculate_chain3)
  have "[[0, 0], [0, 0]] = replicate (length two_points) (replicate (length two_points) (0 :: real))"
    by (rule invalid_parameters_not_rejected
      [where languages = two_points and idw = False and W = "[[0, 0], [0, 0]]",
        THEN conjunct1, THEN mp, OF 1])
  moreover have "permutation_test rotate_shuffle 5 [] values3 chain_weights3 0 =
      Inr ((- 1 / 4, 1), 5)"
    by (rule invalid_parameters_not_rejected
      [where languages = "[]" and x = values3 and w = chain_weights3
         and I = "- 1 / 4" and z = 0 and p = 1 and shuffle = rotate_shuffle and g = 5,
        THEN conjunct2, THEN mp, OF 2])
  ultimately show ?thesis using 1 2 by (intro conjI)
qed

subsection \<open>The distance engine in exact arithmetic\<close>

text \<open>
  Claim C6, the part that exact arithmetic decides. Over the reals the argument \<open>a\<close> of
  the two square roots lies in \<open>[0, 1]\<close> for all coordinates, so \<open>haversine_distance\<close>
  returns, its result is non-negative, and two identical coordinate pairs give 0. The
  source has no clamp of \<open>a\<close> (neither has the model), so nothing keeps a rounded \<open>a\<close>
  inside \<open>[0, 1]\<close>; rounding is outside this model.
\<close>

theorem haversine_exact_arithmetic:
  "0 \<le> haversine_a lat1 lon1 lat2 lon2 \<and> haversine_a lat1 lon1 lat2 lon2 \<le> 1 \<and>
   (\<exists>d. haversine_distance lat1 lon1 lat2 lon2 = Inr d \<and> 0 \<le> d) \<and>
   haversine_distance lat1 lon1 lat1 lon1 = Inr 0"
  by (simp add: haversine_a_nonneg haversine_a_le_one haversine_distance_eq haversine_km_nonneg
      haversine_km_same)

subsection \<open>Distances along a parallel\<close>

lemma haversine_a_same_lat:
  "haversine_a lat l1 lat l2 = (cos (radians lat))\<^sup>2 * (sin (radians (l2 - l1) / 2))\<^sup>2"
proof -
  have "radians 0 = 0" by (simp add: radians_def)
  then show ?thesis by (simp add: haversine_a_def Let_def power2_eq_square)
qed

lemma sin_sq_abs: "(sin (radians \<bar>m\<bar> / 2))\<^sup>2 = (sin (radians m / 2))\<^sup>2"
proof (cases "0 \<le> m")
  case True
  then show ?thesis by simp
next
  case False
  then have "radians \<bar>m\<bar> / 2 = - (radians m / 2)" by (simp add: radians_def)
  then show ?thesis by simp
qed

lemma haversine_km_same_lat: "haversine_km lat l1 lat l2 = lon_km lat \<bar>l2 - l1\<bar>"
  by (simp add: haversine_km_def lon_km_def haversine_a_same_lat sin_sq_abs)

lemma atan2_sqrt_mono:
  assumes "0 \<le> a" "a < b" "b < 1"
  shows "atan2 (sqrt a) (sqrt (1 - a)) < atan2 (sqrt b) (sqrt (1 - b))"
proof -
  have pa: "0 < sqrt (1 - a)" and pb: "0 < sqrt (1 - b)" using assms by simp_all
  have "sqrt a / sqrt (1 - a) < sqrt b / sqrt (1 - b)"
    using assms pb by (intro frac_less) simp_all
  then have "arctan (sqrt a / sqrt (1 - a)) < arctan (sqrt b / sqrt (1 - b))"
    by (simp only: arctan_less_iff)
  then show ?thesis using pa pb by (simp add: atan2_def)
qed

lemma half_angle_range:
  assumes "0 \<le> m" "m \<le> 90"
  shows "0 \<le> radians m / 2" "radians m / 2 < pi / 2"
proof -
  show "0 \<le> radians m / 2" using assms by (simp add: radians_def)
  have "radians m / 2 \<le> pi / 4"
    using assms pi_gt_zero by (simp add: radians_def field_simps)
  then show "radians m / 2 < pi / 2" using pi_gt_zero by linarith
qed

lemma haversine_a_lon_mono:
  assumes c: "0 < cos (radians lat)" and m: "0 \<le> m1" "m1 < m2" "m2 \<le> 90"
  shows "haversine_a lat 0 lat m1 < haversine_a lat 0 lat m2"
    and "haversine_a lat 0 lat m2 < 1"
proof -
  have r1: "0 \<le> radians m1 / 2" "radians m1 / 2 < pi / 2"
    using m by (intro half_angle_range; simp)+
  have r2: "0 \<le> radians m2 / 2" "radians m2 / 2 < pi / 2"
    using m by (intro half_angle_range; simp)+
  have lt: "radians m1 / 2 < radians m2 / 2"
    using m pi_gt_zero by (simp add: radians_def)
  have s1: "0 \<le> sin (radians m1 / 2)"
    using r1 pi_gt_zero by (intro sin_ge_zero) simp_all
  have s12: "sin (radians m1 / 2) < sin (radians m2 / 2)"
    using r1 r2 lt by (subst sin_mono_less_eq) simp_all
  have s2: "sin (radians m2 / 2) < 1"
  proof -
    have "sin (radians m2 / 2) < sin (pi / 2)"
      using r2 by (subst sin_mono_less_eq) simp_all
    then show ?thesis by simp
  qed
  have sq: "(sin (radians m1 / 2))\<^sup>2 < (sin (radians m2 / 2))\<^sup>2"
    using s1 s12 by (intro power_strict_mono) simp_all
  have c2: "0 < (cos (radians lat))\<^sup>2" using c by simp
  show "haversine_a lat 0 lat m1 < haversine_a lat 0 lat m2"
    using sq c2 by (simp add: haversine_a_same_lat)
  have "(sin (radians m2 / 2))\<^sup>2 < 1"
    using s1 s12 s2 by (simp add: power_less_one_iff abs_square_less_1)
  moreover have "(cos (radians lat))\<^sup>2 \<le> 1" by (simp add: abs_square_le_1)
  moreover have "0 \<le> (sin (radians m2 / 2))\<^sup>2" by simp
  ultimately have "(cos (radians lat))\<^sup>2 * (sin (radians m2 / 2))\<^sup>2 < 1"
    by (metis mult_left_le_one_le zero_le_power2 le_less_trans)
  then show "haversine_a lat 0 lat m2 < 1" by (simp add: haversine_a_same_lat)
qed

lemma lon_km_mono:
  assumes "0 < cos (radians lat)" "0 \<le> m1" "m1 < m2" "m2 \<le> 90"
  shows "lon_km lat m1 < lon_km lat m2"
proof -
  have "atan2 (sqrt (haversine_a lat 0 lat m1)) (sqrt (1 - haversine_a lat 0 lat m1))
        < atan2 (sqrt (haversine_a lat 0 lat m2)) (sqrt (1 - haversine_a lat 0 lat m2))"
    using haversine_a_lon_mono [OF assms] haversine_a_nonneg [of lat 0 lat m1]
    by (intro atan2_sqrt_mono)
  then show ?thesis by (simp add: lon_km_def haversine_km_def)
qed

lemma lon_km_zero: "lon_km lat 0 = 0"
  by (simp add: lon_km_def haversine_km_same)

lemma cos_latitude_pos:
  assumes "- 90 < lat" "lat < 90"
  shows "0 < cos (radians lat)"
proof -
  have "pi * (- 90) < pi * lat" "pi * lat < pi * 90"
    using assms pi_gt_zero by (simp_all only: mult_less_cancel_left_pos)
  then have "- (pi / 2) < radians lat" "radians lat < pi / 2"
    by (simp_all add: radians_def field_simps)
  then show ?thesis by (rule cos_gt_zero_pi)
qed

subsection \<open>The weights of five points on a parallel\<close>

lemma length_scenario_points [simp]: "length (scenario_points lat) = 5"
  by (simp add: scenario_points_def)

lemma upt_5: "[0..<5] = [0, 1, 2, 3, 4]"
  by code_simp

lemma scenario_coordinates:
  "i < 5 \<Longrightarrow> latitude (scenario_points lat ! i) = lat \<and>
              longitude (scenario_points lat ! i) = real i"
  by (auto simp: scenario_points_def scenario_point_def eval_nat_numeral less_Suc_eq)

lemma scenario_pair_km:
  "i < 5 \<Longrightarrow> j < 5 \<Longrightarrow> pair_km (scenario_points lat) i j = lon_km lat \<bar>real j - real i\<bar>"
  by (simp add: pair_km_def scenario_coordinates haversine_km_same_lat)

lemma scenario_candidates:
  "candidates (scenario_points lat) 0 =
     [(1, lon_km lat 1), (2, lon_km lat 2), (3, lon_km lat 3), (4, lon_km lat 4)]"
  "candidates (scenario_points lat) (Suc 0) =
     [(0, lon_km lat 1), (2, lon_km lat 1), (3, lon_km lat 2), (4, lon_km lat 3)]"
  "candidates (scenario_points lat) 2 =
     [(0, lon_km lat 2), (1, lon_km lat 1), (3, lon_km lat 1), (4, lon_km lat 2)]"
  "candidates (scenario_points lat) 3 =
     [(0, lon_km lat 3), (1, lon_km lat 2), (2, lon_km lat 1), (4, lon_km lat 1)]"
  "candidates (scenario_points lat) 4 =
     [(0, lon_km lat 4), (1, lon_km lat 3), (2, lon_km lat 2), (3, lon_km lat 1)]"
  by (simp_all add: candidates_def upt_5 scenario_pair_km)

lemma scenario_neighbors:
  assumes "lon_km lat 1 < lon_km lat 2" "lon_km lat 2 < lon_km lat 3"
    "lon_km lat 3 < lon_km lat 4"
  shows "neighbors_of (scenario_points lat) 2 0 = [(Suc 0, lon_km lat 1), (2, lon_km lat 2)]"
    "neighbors_of (scenario_points lat) 2 (Suc 0) = [(0, lon_km lat 1), (2, lon_km lat 1)]"
    "neighbors_of (scenario_points lat) 2 2 = [(Suc 0, lon_km lat 1), (3, lon_km lat 1)]"
    "neighbors_of (scenario_points lat) 2 3 = [(2, lon_km lat 1), (4, lon_km lat 1)]"
    "neighbors_of (scenario_points lat) 2 4 = [(3, lon_km lat 1), (2, lon_km lat 2)]"
  using assms by (simp_all add: neighbors_of_def py_slice_to_def scenario_candidates)

lemma scenario_raw_rows:
  assumes "lon_km lat 1 < lon_km lat 2" "lon_km lat 2 < lon_km lat 3"
    "lon_km lat 3 < lon_km lat 4"
  shows "raw_row (scenario_points lat) 2 True 0 =
           [0, 1 / max (lon_km lat 1) (1 / 10), 1 / max (lon_km lat 2) (1 / 10), 0, 0]"
    "raw_row (scenario_points lat) 2 True (Suc 0) =
           [1 / max (lon_km lat 1) (1 / 10), 0, 1 / max (lon_km lat 1) (1 / 10), 0, 0]"
    "raw_row (scenario_points lat) 2 True 2 =
           [0, 1 / max (lon_km lat 1) (1 / 10), 0, 1 / max (lon_km lat 1) (1 / 10), 0]"
    "raw_row (scenario_points lat) 2 True 3 =
           [0, 0, 1 / max (lon_km lat 1) (1 / 10), 0, 1 / max (lon_km lat 1) (1 / 10)]"
    "raw_row (scenario_points lat) 2 True 4 =
           [0, 0, 1 / max (lon_km lat 2) (1 / 10), 1 / max (lon_km lat 1) (1 / 10), 0]"
  unfolding raw_row_def scenario_neighbors [OF assms] length_scenario_points
  by (simp_all add: assign_weights_def eval_nat_numeral)

lemma normalize_row_explicit:
  assumes "length row = n" "0 < s" "sum_list row = s"
  shows "normalize_row n row = map (\<lambda>w. w / s) row"
  using assms by (simp add: normalize_row_pos)

lemma scenario_weights:
  assumes "0 < cos (radians lat)"
  shows "\<exists>p q. compute_spatial_weights (scenario_points lat) 2 True = Inr (scenario_matrix p q) \<and>
               p + q = 1 \<and> 1 / 2 \<le> p"
proof -
  have h01: "0 < lon_km lat 1"
    using lon_km_mono [OF assms, of 0 1] by (simp add: lon_km_zero)
  have h12: "lon_km lat 1 < lon_km lat 2" using lon_km_mono [OF assms, of 1 2] by simp
  have h23: "lon_km lat 2 < lon_km lat 3" using lon_km_mono [OF assms, of 2 3] by simp
  have h34: "lon_km lat 3 < lon_km lat 4" using lon_km_mono [OF assms, of 3 4] by simp
  define u1 where "u1 = 1 / max (lon_km lat 1) (1 / 10)"
  define u2 where "u2 = 1 / max (lon_km lat 2) (1 / 10)"
  have u1: "0 < u1" by (simp add: u1_def max_def)
  have u2: "0 < u2" by (simp add: u2_def max_def)
  have u21: "u2 \<le> u1"
  proof -
    have "max (lon_km lat 1) (1 / 10) \<le> max (lon_km lat 2) (1 / 10)"
      using h12 by (simp add: max_def)
    moreover have "0 < max (lon_km lat 1) (1 / 10)" by (simp add: max_def)
    ultimately show ?thesis unfolding u1_def u2_def by (intro divide_left_mono) simp_all
  qed
  define p where "p = u1 / (u1 + u2)"
  define q where "q = u2 / (u1 + u2)"
  have pos: "0 < u1 + u2" "0 < u1 + u1" "0 < u1" "u1 \<noteq> 0" using u1 u2 by simp_all
  have pq: "p + q = 1" using pos by (simp add: p_def q_def add_divide_distrib [symmetric])
  have half: "u1 / (u1 + u1) = 1 / 2" using u1 by (simp add: field_simps)
  have p_half: "1 / 2 \<le> p"
  proof -
    have "q \<le> p" unfolding p_def q_def using u21 pos by (intro divide_right_mono) simp_all
    then show ?thesis using pq by linarith
  qed
  note rows = scenario_raw_rows [OF h12 h23 h34, folded u1_def u2_def]
  have r0: "normalize_row 5 (raw_row (scenario_points lat) 2 True 0) = [0, p, q, 0, 0]"
    unfolding rows
    by (subst normalize_row_explicit [where s = "u1 + u2"]) (simp_all add: pos p_def q_def)
  have r1: "normalize_row 5 (raw_row (scenario_points lat) 2 True (Suc 0)) =
      [1 / 2, 0, 1 / 2, 0, 0]"
    unfolding rows
    by (subst normalize_row_explicit [where s = "u1 + u1"]) (simp_all add: pos half)
  have r2: "normalize_row 5 (raw_row (scenario_points lat) 2 True 2) =
      [0, 1 / 2, 0, 1 / 2, 0]"
    unfolding rows
    by (subst normalize_row_explicit [where s = "u1 + u1"]) (simp_all add: pos half)
  have r3: "normalize_row 5 (raw_row (scenario_points lat) 2 True 3) =
      [0, 0, 1 / 2, 0, 1 / 2]"
    unfolding rows
    by (subst normalize_row_explicit [where s = "u1 + u1"]) (simp_all add: pos half)
  have r4: "normalize_row 5 (raw_row (scenario_points lat) 2 True 4) = [0, 0, q, p, 0]"
    unfolding rows
    by (subst normalize_row_explicit [where s = "u1 + u2"])
       (simp_all add: pos p_def q_def add.commute)
  have "compute_spatial_weights (scenario_points lat) 2 True = Inr (scenario_matrix p q)"
    unfolding compute_spatial_weights_eq length_scenario_points upt_5
    by (simp add: r0 r1 r2 r3 r4 scenario_matrix_def)
  then show ?thesis using pq p_half by blast
qed

lemma fst_morans_result:
  "\<not> length x < 3 \<Longrightarrow> sum_sq_dev_spec x \<noteq> 0 \<Longrightarrow> W_total_spec (length x) w \<noteq> 0 \<Longrightarrow>
   fst (morans_result_spec x w) = morans_I_spec x w"
  by (simp add: morans_result_spec_def)

lemma scenario_matrix_facts:
  "square_matrix 5 (scenario_matrix p q)"
  "W_total_spec 5 (scenario_matrix p q) = 3 + 2 * (p + q)"
  by (simp_all add: square_matrix_def W_total_spec_def scenario_matrix_def eval_sums)

lemma clustered_facts:
  "length clustered_labels = 5"
  "deviation_spec clustered_labels 0 = 2 / 5"
  "deviation_spec clustered_labels (Suc 0) = 2 / 5"
  "deviation_spec clustered_labels (Suc (Suc 0)) = 2 / 5"
  "deviation_spec clustered_labels (Suc (Suc (Suc 0))) = - 3 / 5"
  "deviation_spec clustered_labels (Suc (Suc (Suc (Suc 0)))) = - 3 / 5"
  by (simp_all add: deviation_spec_def clustered_labels_def eval_sums)

lemma interleaved_facts:
  "length interleaved_labels = 5"
  "deviation_spec interleaved_labels 0 = 2 / 5"
  "deviation_spec interleaved_labels (Suc 0) = - 3 / 5"
  "deviation_spec interleaved_labels (Suc (Suc 0)) = 2 / 5"
  "deviation_spec interleaved_labels (Suc (Suc (Suc 0))) = - 3 / 5"
  "deviation_spec interleaved_labels (Suc (Suc (Suc (Suc 0)))) = 2 / 5"
  by (simp_all add: deviation_spec_def interleaved_labels_def eval_sums)

lemma clustered_sums:
  "sum_sq_dev_spec clustered_labels = 6 / 5"
  "cross_product_spec clustered_labels (scenario_matrix p q) =
     18 / 100 + (52 / 100) * p - (8 / 100) * q"
  by (simp_all add: sum_sq_dev_spec_def cross_product_spec_def clustered_facts eval_sums
      scenario_matrix_def power2_eq_square algebra_simps)

lemma interleaved_sums:
  "sum_sq_dev_spec interleaved_labels = 6 / 5"
  "cross_product_spec interleaved_labels (scenario_matrix p q) =
     - (72 / 100) - (48 / 100) * p + (32 / 100) * q"
  by (simp_all add: sum_sq_dev_spec_def cross_product_spec_def interleaved_facts eval_sums
      scenario_matrix_def power2_eq_square algebra_simps)

lemma scenario_statistics:
  assumes "p + q = 1"
  shows "morans_I_spec clustered_labels (scenario_matrix p q) = 1 / 12 + p / 2"
    and "morans_I_spec interleaved_labels (scenario_matrix p q) = - 1 / 3 - 2 * p / 3"
proof -
  have q: "q = 1 - p" using assms by linarith
  show "morans_I_spec clustered_labels (scenario_matrix p q) = 1 / 12 + p / 2"
    by (simp add: morans_I_spec_def clustered_facts scenario_matrix_facts clustered_sums assms)
       (simp add: q field_simps)
  show "morans_I_spec interleaved_labels (scenario_matrix p q) = - 1 / 3 - 2 * p / 3"
    by (simp add: morans_I_spec_def interleaved_facts scenario_matrix_facts interleaved_sums assms)
       (simp add: q field_simps)
qed

lemma scenario_calculate:
  assumes "p + q = 1"
  shows "\<exists>z pv. calculate_morans_i languages clustered_labels (scenario_matrix p q) =
                   Inr (1 / 12 + p / 2, z, pv)"
    and "\<exists>z pv. calculate_morans_i languages interleaved_labels (scenario_matrix p q) =
                   Inr (- 1 / 3 - 2 * p / 3, z, pv)"
proof -
  have W: "W_total_spec 5 (scenario_matrix p q) \<noteq> 0"
    using assms by (simp add: scenario_matrix_facts)
  have "fst (morans_result_spec clustered_labels (scenario_matrix p q)) = 1 / 12 + p / 2"
    using W by (subst fst_morans_result)
      (simp_all add: clustered_facts clustered_sums scenario_statistics [OF assms])
  moreover have "calculate_morans_i languages clustered_labels (scenario_matrix p q) =
      Inr (morans_result_spec clustered_labels (scenario_matrix p q))"
    by (rule calculate_morans_i_square) (simp add: clustered_facts scenario_matrix_facts)
  ultimately show "\<exists>z pv. calculate_morans_i languages clustered_labels (scenario_matrix p q) =
                   Inr (1 / 12 + p / 2, z, pv)"
    by (cases "morans_result_spec clustered_labels (scenario_matrix p q)") simp
  have "fst (morans_result_spec interleaved_labels (scenario_matrix p q)) = - 1 / 3 - 2 * p / 3"
    using W by (subst fst_morans_result)
      (simp_all add: interleaved_facts interleaved_sums scenario_statistics [OF assms])
  moreover have "calculate_morans_i languages interleaved_labels (scenario_matrix p q) =
      Inr (morans_result_spec interleaved_labels (scenario_matrix p q))"
    by (rule calculate_morans_i_square) (simp add: interleaved_facts scenario_matrix_facts)
  ultimately show "\<exists>z pv. calculate_morans_i languages interleaved_labels (scenario_matrix p q) =
                   Inr (- 1 / 3 - 2 * p / 3, z, pv)"
    by (cases "morans_result_spec interleaved_labels (scenario_matrix p q)") simp
qed

subsection \<open>Scenarios A and B\<close>

text \<open>
  Claim C9. For the five points at the longitudes 0, 1, 2, 3, 4 on one latitude (any
  latitude strictly between the poles, where the five points are distinct), with
  \<open>k = 2\<close> and inverse-distance weighting, \<open>calculate_morans_i\<close> returns \<open>I > 0.3\<close> on the
  labels \<open>[1, 1, 1, 0, 0]\<close>, and on the labels \<open>[1, 0, 1, 0, 1]\<close> with the same matrix a
  value that is at most \<open>E[I] = -0.25\<close> and strictly below the first.
\<close>

theorem scenario_clustered_vs_interleaved:
  assumes "- 90 < lat" and "lat < 90"
  shows "\<exists>W I_A z_A p_A I_B z_B p_B.
           compute_spatial_weights (scenario_points lat) 2 True = Inr W \<and>
           calculate_morans_i (scenario_points lat) clustered_labels W = Inr (I_A, z_A, p_A) \<and>
           calculate_morans_i (scenario_points lat) interleaved_labels W = Inr (I_B, z_B, p_B) \<and>
           3 / 10 < I_A \<and> E_I_spec 5 = - 1 / 4 \<and> I_B \<le> E_I_spec 5 \<and> I_B < I_A"
proof -
  have "0 < cos (radians lat)" using assms by (rule cos_latitude_pos)
  then obtain p q where W: "compute_spatial_weights (scenario_points lat) 2 True =
      Inr (scenario_matrix p q)" and pq: "p + q = 1" and p: "1 / 2 \<le> p"
    using scenario_weights by blast
  obtain z_A p_A where A: "calculate_morans_i (scenario_points lat) clustered_labels
      (scenario_matrix p q) = Inr (1 / 12 + p / 2, z_A, p_A)"
    using scenario_calculate(1) [OF pq] by blast
  obtain z_B p_B where B: "calculate_morans_i (scenario_points lat) interleaved_labels
      (scenario_matrix p q) = Inr (- 1 / 3 - 2 * p / 3, z_B, p_B)"
    using scenario_calculate(2) [OF pq] by blast
  have E: "E_I_spec 5 = - 1 / 4" by (simp add: E_I_spec_def)
  have 1: "3 / 10 < 1 / 12 + p / 2" using p by simp
  have 2: "- 1 / 3 - 2 * p / 3 \<le> E_I_spec 5" unfolding E using p by simp
  have 3: "- 1 / 3 - 2 * p / 3 < 1 / 12 + p / 2" using p by simp
  have "compute_spatial_weights (scenario_points lat) 2 True = Inr (scenario_matrix p q) \<and>
        calculate_morans_i (scenario_points lat) clustered_labels (scenario_matrix p q) =
          Inr (1 / 12 + p / 2, z_A, p_A) \<and>
        calculate_morans_i (scenario_points lat) interleaved_labels (scenario_matrix p q) =
          Inr (- 1 / 3 - 2 * p / 3, z_B, p_B) \<and>
        3 / 10 < 1 / 12 + p / 2 \<and> E_I_spec 5 = - 1 / 4 \<and>
        - 1 / 3 - 2 * p / 3 \<le> E_I_spec 5 \<and> - 1 / 3 - 2 * p / 3 < 1 / 12 + p / 2"
    using W A B E 1 2 3 by (intro conjI)
  then show ?thesis by (intro exI)
qed

theorem scenario_clustered_vs_interleaved_witness:
  "(- 90 :: real) < 0 \<and> (0 :: real) < 90 \<and>
   (\<exists>W I_A z_A p_A I_B z_B p_B.
      compute_spatial_weights (scenario_points 0) 2 True = Inr W \<and>
      calculate_morans_i (scenario_points 0) clustered_labels W = Inr (I_A, z_A, p_A) \<and>
      calculate_morans_i (scenario_points 0) interleaved_labels W = Inr (I_B, z_B, p_B) \<and>
      3 / 10 < I_A \<and> E_I_spec 5 = - 1 / 4 \<and> I_B \<le> E_I_spec 5 \<and> I_B < I_A)"
proof -
  have 1: "(- 90 :: real) < 0" by simp
  have 2: "(0 :: real) < 90" by simp
  show ?thesis
    using 1 2 scenario_clustered_vs_interleaved [OF 1 2] by (intro conjI)
qed

subsection \<open>The weights matrix\<close>

lemma scenario_nearest:
  assumes "lon_km lat 1 < lon_km lat 2" "lon_km lat 2 < lon_km lat 3"
    "lon_km lat 3 < lon_km lat 4"
  shows "neighbors_of (scenario_points lat) 1 0 = [(Suc 0, lon_km lat 1)]"
    "neighbors_of (scenario_points lat) 1 (Suc 0) = [(0, lon_km lat 1)]"
    "neighbors_of (scenario_points lat) 1 2 = [(Suc 0, lon_km lat 1)]"
    "neighbors_of (scenario_points lat) 1 3 = [(2, lon_km lat 1)]"
    "neighbors_of (scenario_points lat) 1 4 = [(3, lon_km lat 1)]"
  using assms by (simp_all add: neighbors_of_def py_slice_to_def scenario_candidates)

lemma scenario_nearest_rows:
  assumes "lon_km lat 1 < lon_km lat 2" "lon_km lat 2 < lon_km lat 3"
    "lon_km lat 3 < lon_km lat 4"
  shows "raw_row (scenario_points lat) 1 False 0 = [0, 1, 0, 0, 0]"
    "raw_row (scenario_points lat) 1 False (Suc 0) = [1, 0, 0, 0, 0]"
    "raw_row (scenario_points lat) 1 False 2 = [0, 1, 0, 0, 0]"
    "raw_row (scenario_points lat) 1 False 3 = [0, 0, 1, 0, 0]"
    "raw_row (scenario_points lat) 1 False 4 = [0, 0, 0, 1, 0]"
  unfolding raw_row_def scenario_nearest [OF assms] length_scenario_points
  by (simp_all add: assign_weights_def eval_nat_numeral)

lemma equator_order:
  "lon_km 0 1 < lon_km 0 2" "lon_km 0 2 < lon_km 0 3" "lon_km 0 3 < lon_km 0 4"
proof -
  have c: "0 < cos (radians 0)" by (simp add: radians_def)
  show "lon_km 0 1 < lon_km 0 2" using lon_km_mono [OF c, of 1 2] by simp
  show "lon_km 0 2 < lon_km 0 3" using lon_km_mono [OF c, of 2 3] by simp
  show "lon_km 0 3 < lon_km 0 4" using lon_km_mono [OF c, of 3 4] by simp
qed

lemma equator_nearest_matrix:
  "compute_spatial_weights (scenario_points 0) 1 False = Inr nearest_matrix"
proof -
  have n: "normalize_row 5 row = row" if "length row = 5" "sum_list row = 1" for row
    using that by (simp add: normalize_row_def divide_row_eq Let_def map_idI)
  show ?thesis
    unfolding compute_spatial_weights_eq length_scenario_points upt_5
    by (simp add: scenario_nearest_rows [OF equator_order] n nearest_matrix_def)
qed

lemma equator_distances:
  "collect_distances (scenario_points 0) 2 [0..<length (scenario_points 0)] [] =
     Inr [(0, lon_km 0 2), (1, lon_km 0 1), (3, lon_km 0 1), (4, lon_km 0 2)]"
  by (simp only: collect_distances_candidates scenario_candidates)

lemma equator_sorted:
  "sort_key snd [(0 :: nat, lon_km 0 2), (1, lon_km 0 1), (3, lon_km 0 1), (4, lon_km 0 2)] =
     [(1, lon_km 0 1), (3, lon_km 0 1), (0, lon_km 0 2), (4, lon_km 0 2)]"
  using equator_order by simp

text \<open>
  Claim C4. Every matrix that \<open>compute_spatial_weights\<close> returns satisfies the
  WeightsMatrix invariant: it is square, every diagonal entry is 0, every entry is
  non-negative, and every row with a non-zero entry (a row that received a neighbour)
  sums to 1. For \<open>k \<ge> 1\<close> (the builder's contract) and at least two points every row
  sums to 1, hence within \<open>1e-9\<close> of 1, and a row is all-zero only for a point set of
  size below 2. The builder returns no matrix when \<open>haversine_distance\<close> raises.
\<close>

theorem spatial_weights_invariant:
  assumes "compute_spatial_weights languages k idw = Inr W"
  shows "length W = length languages \<and>
         (\<forall>i<length languages.
            length (W ! i) = length languages \<and>
            W ! i ! i = 0 \<and>
            (\<forall>j<length languages. 0 \<le> W ! i ! j) \<and>
            ((\<exists>j<length languages. W ! i ! j \<noteq> 0) \<longrightarrow> sum_list (W ! i) = 1) \<and>
            (1 \<le> k \<and> 2 \<le> length languages \<longrightarrow>
               sum_list (W ! i) = 1 \<and> \<bar>sum_list (W ! i) - 1\<bar> \<le> 1 / 10 ^ 9) \<and>
            (1 \<le> k \<and> (\<forall>j<length languages. W ! i ! j = 0) \<longrightarrow> length languages < 2))"
proof -
  let ?n = "length languages"
  let ?row = "\<lambda>i. normalize_row ?n (raw_row languages k idw i)"
  have W: "W = map ?row [0..<?n]"
    using assms by (simp add: compute_spatial_weights_eq)
  have rows: "length (W ! i) = ?n \<and> W ! i ! i = 0 \<and> (\<forall>j<?n. 0 \<le> W ! i ! j) \<and>
      ((\<exists>j<?n. W ! i ! j \<noteq> 0) \<longrightarrow> sum_list (W ! i) = 1) \<and>
      (1 \<le> k \<and> 2 \<le> ?n \<longrightarrow> sum_list (W ! i) = 1 \<and> \<bar>sum_list (W ! i) - 1\<bar> \<le> 1 / 10 ^ 9) \<and>
      (1 \<le> k \<and> (\<forall>j<?n. W ! i ! j = 0) \<longrightarrow> ?n < 2)" if i: "i < ?n" for i
  proof -
    have Wi: "W ! i = ?row i" using i by (simp add: W)
    have len: "length (?row i) = ?n" by simp
    have diag: "?row i ! i = 0"
      using i by (simp add: normalized_nth raw_row_diag)
    have nonneg: "\<forall>j<?n. 0 \<le> ?row i ! j"
      using i by (simp add: normalized_nonneg)
    have some: "sum_list (?row i) = 1" if "\<exists>j<?n. ?row i ! j \<noteq> 0"
    proof -
      from that obtain j where "j < ?n" "?row i ! j \<noteq> 0" by blast
      then have "j \<in> fst ` set (neighbors_of languages k i)"
        using i normalized_nonzero_iff [of i languages j k idw] by simp
      then have "neighbors_of languages k i \<noteq> []" by auto
      then show ?thesis by (rule normalized_sum)
    qed
    have full: "sum_list (?row i) = 1" if "1 \<le> k" "2 \<le> ?n"
      using that i by (intro normalized_sum neighbors_of_nonempty)
    have zero: "?n < 2" if k: "1 \<le> k" and z: "\<forall>j<?n. ?row i ! j = 0"
    proof (rule ccontr)
      assume "\<not> ?n < 2"
      then have "sum_list (?row i) = 1" using full k by simp
      moreover have "\<forall>x\<in>set (?row i). x = 0"
        using z len by (metis in_set_conv_nth)
      then have "sum_list (?row i) = 0"
        by (subst sum_list_nonneg_eq_0_iff) auto
      ultimately show False by simp
    qed
    show ?thesis
      unfolding Wi using len diag nonneg some full zero by simp
  qed
  show ?thesis
    using rows by (simp add: W)
qed

theorem spatial_weights_invariant_witness:
  "compute_spatial_weights (scenario_points 0) 1 False = Inr nearest_matrix \<and>
   length nearest_matrix = length (scenario_points 0) \<and>
   nearest_matrix ! 2 ! 2 = 0 \<and> 0 \<le> nearest_matrix ! 2 ! 1 \<and>
   nearest_matrix ! 2 ! 1 \<noteq> 0 \<and> sum_list (nearest_matrix ! 2) = 1 \<and>
   \<bar>sum_list (nearest_matrix ! 2) - 1\<bar> \<le> 1 / 10 ^ 9"
proof -
  note inv = spatial_weights_invariant [OF equator_nearest_matrix]
  have len: "length nearest_matrix = length (scenario_points 0)"
    using inv by (rule conjunct1)
  have "\<forall>i<5. length (nearest_matrix ! i) = 5 \<and> nearest_matrix ! i ! i = 0 \<and>
          (\<forall>j<5. 0 \<le> nearest_matrix ! i ! j) \<and>
          ((\<exists>j<5. nearest_matrix ! i ! j \<noteq> 0) \<longrightarrow> sum_list (nearest_matrix ! i) = 1) \<and>
          ((1 :: int) \<le> 1 \<and> (2 :: nat) \<le> 5 \<longrightarrow>
             sum_list (nearest_matrix ! i) = 1 \<and>
             \<bar>sum_list (nearest_matrix ! i) - 1\<bar> \<le> 1 / 10 ^ 9) \<and>
          ((1 :: int) \<le> 1 \<and> (\<forall>j<5. nearest_matrix ! i ! j = 0) \<longrightarrow> (5 :: nat) < 2)"
    using inv by simp
  then have row: "nearest_matrix ! 2 ! 2 = 0 \<and> (\<forall>j<5. 0 \<le> nearest_matrix ! 2 ! j) \<and>
      sum_list (nearest_matrix ! 2) = 1 \<and> \<bar>sum_list (nearest_matrix ! 2) - 1\<bar> \<le> 1 / 10 ^ 9"
    by simp
  have nz: "nearest_matrix ! 2 ! 1 \<noteq> 0" by (simp add: nearest_matrix_def)
  show ?thesis
    using equator_nearest_matrix len row nz by simp
qed

text \<open>
  Claim C5. Whenever the distances of point \<open>i\<close> are computed and the builder returns,
  the candidates are the \<open>N - 1\<close> other points with their great-circle distances; the
  sorted candidate list is the permutation of them that is strictly ascending in
  \<open>closer_spec\<close> (distance first, original index on ties; there is exactly one such
  list, lemma \<open>closer_sorted_unique\<close>), the selected neighbours are its first
  \<open>min k (N - 1)\<close> elements, and row \<open>i\<close> of the returned matrix is non-zero exactly at
  the selected indices. The builder is a function of its arguments, so two calls with
  the same arguments return the same matrix.
\<close>

theorem nearest_neighbors_selected:
  assumes "i < length languages" and "0 \<le> k"
    and "collect_distances languages i [0..<length languages] [] = Inr distances"
    and "compute_spatial_weights languages k idw = Inr W"
  shows "set distances =
           {(j, d) | j d. j < length languages \<and> j \<noteq> i \<and>
              haversine_distance (latitude (languages ! i)) (longitude (languages ! i))
                (latitude (languages ! j)) (longitude (languages ! j)) = Inr d} \<and>
         length distances = length languages - 1 \<and>
         mset (sort_key snd distances) = mset distances \<and>
         sorted_wrt closer_spec (sort_key snd distances) \<and>
         py_slice_to k (sort_key snd distances) =
           take (min (nat k) (length languages - 1)) (sort_key snd distances) \<and>
         (\<forall>j<length languages.
            W ! i ! j \<noteq> 0 \<longleftrightarrow> j \<in> fst ` set (py_slice_to k (sort_key snd distances)))"
proof -
  let ?n = "length languages"
  have ds: "distances = candidates languages i"
    using assms(3) by (simp add: collect_distances_candidates)
  have W: "W = map (\<lambda>i. normalize_row ?n (raw_row languages k idw i)) [0..<?n]"
    using assms(4) by (simp add: compute_spatial_weights_eq)
  have 2: "set distances = {(j, d) | j d. j < ?n \<and> j \<noteq> i \<and>
                haversine_distance (latitude (languages ! i)) (longitude (languages ! i))
                  (latitude (languages ! j)) (longitude (languages ! j)) = Inr d}"
    unfolding ds by (auto simp: candidates_set haversine_distance_eq pair_km_def)
  have 3: "length distances = ?n - 1" unfolding ds using assms(1) by (rule length_candidates)
  have 4: "py_slice_to k (sort_key snd distances) =
      take (min (nat k) (?n - 1)) (sort_key snd distances)"
  proof -
    have "take (min (nat k) (length (sort_key snd distances))) (sort_key snd distances) =
          take (nat k) (sort_key snd distances)"
      by (simp add: min_def)
    then show ?thesis using assms(2) 3 by (simp add: py_slice_to_def)
  qed
  have 5: "sorted_wrt closer_spec (sort_key snd distances)"
    unfolding ds by (rule sorted_candidates_closer)
  have 6: "\<forall>j<?n. W ! i ! j \<noteq> 0 \<longleftrightarrow> j \<in> fst ` set (py_slice_to k (sort_key snd distances))"
    using assms(1) normalized_nonzero_iff [of i languages _ k idw]
    by (simp add: W ds neighbors_of_def)
  show ?thesis
    using 2 3 4 5 6 by simp
qed

theorem nearest_neighbors_selected_witness:
  "2 < length (scenario_points 0) \<and> (0 :: int) \<le> 1 \<and>
   collect_distances (scenario_points 0) 2 [0..<length (scenario_points 0)] [] =
     Inr [(0, lon_km 0 2), (1, lon_km 0 1), (3, lon_km 0 1), (4, lon_km 0 2)] \<and>
   compute_spatial_weights (scenario_points 0) 1 False = Inr nearest_matrix \<and>
   sort_key snd [(0 :: nat, lon_km 0 2), (1, lon_km 0 1), (3, lon_km 0 1), (4, lon_km 0 2)] =
     [(1, lon_km 0 1), (3, lon_km 0 1), (0, lon_km 0 2), (4, lon_km 0 2)] \<and>
   sorted_wrt closer_spec [(1, lon_km 0 1), (3, lon_km 0 1), (0, lon_km 0 2), (4, lon_km 0 2)] \<and>
   py_slice_to 1 [(1 :: nat, lon_km 0 1), (3, lon_km 0 1), (0, lon_km 0 2), (4, lon_km 0 2)] =
     [(1, lon_km 0 1)] \<and>
   nearest_matrix ! 2 ! 1 \<noteq> 0 \<and> nearest_matrix ! 2 ! 3 = 0"
proof -
  have 1: "2 < length (scenario_points 0)" by simp
  have 2: "(0 :: int) \<le> 1" by simp
  note sel = nearest_neighbors_selected [OF 1 2 equator_distances equator_nearest_matrix]
  have s: "sorted_wrt closer_spec
      [(1, lon_km 0 1), (3, lon_km 0 1), (0, lon_km 0 2), (4, lon_km 0 2)]"
    using sel unfolding equator_sorted by blast
  have t: "py_slice_to 1
      [(1 :: nat, lon_km 0 1), (3, lon_km 0 1), (0, lon_km 0 2), (4, lon_km 0 2)] =
      [(1, lon_km 0 1)]"
    using sel unfolding equator_sorted by simp
  have r: "\<forall>j<5. nearest_matrix ! 2 ! j \<noteq> 0 \<longleftrightarrow> j \<in> fst ` set [(1 :: nat, lon_km 0 1)]"
    using sel unfolding equator_sorted t by simp
  have "(1 :: nat) < 5 \<longrightarrow>
        (nearest_matrix ! 2 ! 1 \<noteq> 0 \<longleftrightarrow> 1 \<in> fst ` set [(1 :: nat, lon_km 0 1)])"
    using r by (rule spec)
  then have a: "nearest_matrix ! 2 ! 1 \<noteq> 0" by simp
  have "(3 :: nat) < 5 \<longrightarrow>
        (nearest_matrix ! 2 ! 3 \<noteq> 0 \<longleftrightarrow> 3 \<in> fst ` set [(1 :: nat, lon_km 0 1)])"
    using r by (rule spec)
  then have b: "nearest_matrix ! 2 ! 3 = 0" by simp
  from a b show ?thesis
    using 1 2 equator_distances equator_nearest_matrix equator_sorted s t by (intro conjI)
qed

subsection \<open>The calculator leaves the store as it found it\<close>

lemma matrix_at_new_float_list:
  assumes "\<forall>r\<in>set (row_lists s weights). r < next_float_list s"
  shows "matrix_at (snd (new_float_list xs s)) weights = matrix_at s weights"
  using assms by (auto simp: matrix_at_def new_float_list_def)

lemma calculate_morans_i_store_eq:
  assumes "\<forall>r\<in>set (row_lists s weights). r < next_float_list s"
  shows "calculate_morans_i_store languages vals weights s =
           (calculate_morans_i (language_lists s languages) (float_lists s vals)
              (matrix_at s weights),
            if length (float_lists s vals) < 3 then s
            else snd (new_float_list
                        (map (\<lambda>v. v - sum_list (float_lists s vals)
                                         / real (length (float_lists s vals)))
                           (float_lists s vals)) s))"
proof (cases "length (float_lists s vals) < 3")
  case True
  then show ?thesis
    by (simp add: calculate_morans_i_store_def calculate_morans_i_def)
next
  case False
  let ?x = "float_lists s vals"
  let ?dv = "map (\<lambda>v. v - sum_list ?x / real (length ?x)) ?x"
  let ?s' = "s\<lparr>float_lists := (float_lists s)(next_float_list s := ?dv),
                next_float_list := Suc (next_float_list s)\<rparr>"
  have new: "new_float_list ?dv s = (next_float_list s, ?s')"
    by (simp add: new_float_list_def)
  have dv: "float_lists ?s' (next_float_list s) = ?dv"
    by simp
  have "matrix_at (snd (new_float_list ?dv s)) weights = matrix_at s weights"
    using assms by (rule matrix_at_new_float_list)
  then have m: "matrix_at ?s' weights = matrix_at s weights"
    by (simp add: new)
  have "calculate_morans_i_store languages vals weights s =
      (calculate_morans_i (language_lists s languages) ?x (matrix_at s weights), ?s')"
    unfolding calculate_morans_i_store_def calculate_morans_i_def Let_def new prod.case dv m
    using False
    by (simp split: sum.splits prod.splits)
  then show ?thesis using False by (simp add: new)
qed

lemma store_after_call:
  assumes "\<forall>r\<in>set (row_lists s weights). r < next_float_list s"
  shows "row_lists (snd (calculate_morans_i_store languages vals weights s)) = row_lists s"
    and "language_lists (snd (calculate_morans_i_store languages vals weights s)) =
           language_lists s"
    and "next_float_list s \<le> next_float_list (snd (calculate_morans_i_store languages vals weights s))"
    and "a < next_float_list s \<Longrightarrow>
           float_lists (snd (calculate_morans_i_store languages vals weights s)) a =
             float_lists s a"
  by (simp_all add: calculate_morans_i_store_eq [OF assms] new_float_list_def)

lemma matrix_after_call:
  assumes "\<forall>r\<in>set (row_lists s weights). r < next_float_list s"
  shows "matrix_at (snd (calculate_morans_i_store languages vals weights s)) weights =
           matrix_at s weights"
proof -
  let ?s' = "snd (calculate_morans_i_store languages vals weights s)"
  have "float_lists ?s' r = float_lists s r" if "r \<in> set (row_lists s weights)" for r
    using assms that store_after_call(4) [OF assms, of r languages vals] by simp
  then have "map (float_lists ?s') (row_lists s weights) = map (float_lists s) (row_lists s weights)"
    by simp
  then show ?thesis
    by (simp add: matrix_at_def store_after_call(1) [OF assms])
qed

text \<open>
  Claim C10. \<open>calculate_morans_i\<close> is a function of the value vector and the weights
  matrix alone, and it changes no object. In a store where the vector and the rows of
  the matrix are lists in use: two calls that differ only in the \<open>languages\<close> argument
  return the same result (the same triple, or the same exception) and leave the same
  store; a second call made after the first, with another \<open>languages\<close> argument,
  returns what the first returned; after a call the value vector, the matrix, every
  list of rows, every list of \<open>Language\<close> records and every list of floats that was in
  use are what they were before it (the only new object is the local list
  \<open>deviations\<close>); and the result is the one of the function on the contents of its
  arguments, which does not depend on \<open>languages\<close>.
\<close>

theorem morans_i_pure_function:
  assumes "vals < next_float_list s"
    and "\<forall>r\<in>set (row_lists s weights). r < next_float_list s"
  shows "calculate_morans_i_store languages1 vals weights s =
           calculate_morans_i_store languages2 vals weights s \<and>
         fst (calculate_morans_i_store languages2 vals weights
                (snd (calculate_morans_i_store languages1 vals weights s))) =
           fst (calculate_morans_i_store languages1 vals weights s) \<and>
         float_lists (snd (calculate_morans_i_store languages1 vals weights s)) vals =
           float_lists s vals \<and>
         matrix_at (snd (calculate_morans_i_store languages1 vals weights s)) weights =
           matrix_at s weights \<and>
         row_lists (snd (calculate_morans_i_store languages1 vals weights s)) = row_lists s \<and>
         language_lists (snd (calculate_morans_i_store languages1 vals weights s)) =
           language_lists s \<and>
         (\<forall>a<next_float_list s.
            float_lists (snd (calculate_morans_i_store languages1 vals weights s)) a =
              float_lists s a) \<and>
         fst (calculate_morans_i_store languages1 vals weights s) =
           calculate_morans_i (language_lists s languages1) (float_lists s vals)
             (matrix_at s weights) \<and>
         calculate_morans_i languages3 x w = calculate_morans_i languages4 x w"
proof -
  let ?s' = "snd (calculate_morans_i_store languages1 vals weights s)"
  note after = store_after_call [OF assms(2)]
  have pure: "calculate_morans_i l1 y m = calculate_morans_i l2 y m" for l1 l2 y m
    by (simp add: calculate_morans_i_def)
  have 1: "calculate_morans_i_store languages1 vals weights s =
           calculate_morans_i_store languages2 vals weights s"
    unfolding calculate_morans_i_store_eq [OF assms(2)]
    using pure [of "language_lists s languages1" _ _ "language_lists s languages2"] by simp
  have v: "float_lists ?s' vals = float_lists s vals"
    using assms(1) by (rule after(4))
  have m: "matrix_at ?s' weights = matrix_at s weights"
    using assms(2) by (rule matrix_after_call)
  have rows': "\<forall>r\<in>set (row_lists ?s' weights). r < next_float_list ?s'"
  proof
    fix r assume "r \<in> set (row_lists ?s' weights)"
    then have "r < next_float_list s" using assms(2) by (simp add: after(1))
    then show "r < next_float_list ?s'"
      using after(3) [of languages1 vals] by linarith
  qed
  have "fst (calculate_morans_i_store languages2 vals weights ?s') =
        calculate_morans_i (language_lists ?s' languages2) (float_lists ?s' vals)
          (matrix_at ?s' weights)"
    by (simp add: calculate_morans_i_store_eq [OF rows'])
  also have "\<dots> = calculate_morans_i (language_lists s languages1) (float_lists s vals)
          (matrix_at s weights)"
    unfolding v m by (rule pure)
  also have "\<dots> = fst (calculate_morans_i_store languages1 vals weights s)"
    by (simp add: calculate_morans_i_store_eq [OF assms(2)])
  finally have 2: "fst (calculate_morans_i_store languages2 vals weights ?s') =
      fst (calculate_morans_i_store languages1 vals weights s)" .
  have 7: "\<forall>a<next_float_list s. float_lists ?s' a = float_lists s a"
    using after(4) by blast
  have 8: "fst (calculate_morans_i_store languages1 vals weights s) =
           calculate_morans_i (language_lists s languages1) (float_lists s vals)
             (matrix_at s weights)"
    by (simp add: calculate_morans_i_store_eq [OF assms(2)])
  show ?thesis
    using 1 2 v m after(1,2) 7 8 pure [of languages3 x w languages4] by (intro conjI)
qed

theorem morans_i_pure_function_witness:
  "(0 :: nat) < next_float_list chain_store \<and>
   row_lists chain_store 0 = [1, 2, 3, 4] \<and> next_float_list chain_store = 5 \<and>
   calculate_morans_i_store 0 0 0 chain_store = calculate_morans_i_store 7 0 0 chain_store \<and>
   fst (calculate_morans_i_store 7 0 0 (snd (calculate_morans_i_store 0 0 0 chain_store))) =
     fst (calculate_morans_i_store 0 0 0 chain_store) \<and>
   float_lists (snd (calculate_morans_i_store 0 0 0 chain_store)) 0 = [1, 1, 0, 0] \<and>
   matrix_at (snd (calculate_morans_i_store 0 0 0 chain_store)) 0 = chain_weights4 \<and>
   fst (calculate_morans_i_store 0 0 0 chain_store) =
     calculate_morans_i [] values4 chain_weights4"
proof -
  have 1: "(0 :: nat) < next_float_list chain_store" by (simp add: chain_store_def)
  have r: "row_lists chain_store 0 = [1, 2, 3, 4]" "next_float_list chain_store = 5"
    by (simp_all add: chain_store_def)
  have 2: "\<forall>r\<in>set (row_lists chain_store 0). r < next_float_list chain_store"
    by (simp add: r)
  have c: "float_lists chain_store 0 = values4" "matrix_at chain_store 0 = chain_weights4"
    "language_lists chain_store 0 = []"
    by (simp_all add: chain_store_def matrix_at_def values4_def chain_weights4_def)
  note t = morans_i_pure_function [OF 1 2, of 0 7 "[]" "[]" "[]" "[]"]
  note t1 = t [THEN conjunct1]
  note t2 = t [THEN conjunct2, THEN conjunct1]
  note t3 = t [THEN conjunct2, THEN conjunct2, THEN conjunct1]
  note t4 = t [THEN conjunct2, THEN conjunct2, THEN conjunct2, THEN conjunct1]
  note t8 = t [THEN conjunct2, THEN conjunct2, THEN conjunct2, THEN conjunct2,
      THEN conjunct2, THEN conjunct2, THEN conjunct2, THEN conjunct1]
  have "float_lists (snd (calculate_morans_i_store 0 0 0 chain_store)) 0 = [1, 1, 0, 0]"
    using t3 by (simp add: c values4_def)
  moreover have "matrix_at (snd (calculate_morans_i_store 0 0 0 chain_store)) 0 = chain_weights4"
    using t4 by (simp add: c)
  moreover have "fst (calculate_morans_i_store 0 0 0 chain_store) =
     calculate_morans_i [] values4 chain_weights4"
    using t8 by (simp add: c)
  moreover note t1 t2
  ultimately show ?thesis using 1 r by (intro conjI)
qed

end
